theory Spec2Isabelle
  imports Main "HOL-Library.Multiset"
begin

section \<open>Python values and exceptions\<close>

text \<open>
  The exceptions the coordinator's own code can raise. A raise is the \<open>Inl\<close> branch of
  a sum; a normal return is \<open>Inr\<close>.
\<close>

datatype error =
    IndexError
  | TypeError
  | AttributeError string
  | ExternalError string

text \<open>
  The world state of \<^verbatim>\<open>hybrid_coordinator_blocks_world.py\<close> is a \<^verbatim>\<open>Dict\<close> with the keys
  \<^verbatim>\<open>"ontable"\<close>, \<^verbatim>\<open>"clear"\<close>, \<^verbatim>\<open>"holding"\<close>, \<^verbatim>\<open>"handempty"\<close> and \<^verbatim>\<open>"on"\<close>. The code tests
  for the presence of each key, so every field is an option: \<open>None\<close> is an absent key.
  The values are Python lists (order and duplicates matter: \<^verbatim>\<open>list.remove\<close> deletes the
  first occurrence only). Each key holds a list object of its own.
\<close>

record state =
  ontable :: "string list option"
  clear :: "string list option"
  holding :: "string list option"
  handempty :: "bool option"
  on :: "(string \<times> string) list option"

section \<open>Token normalisation\<close>

text \<open>
  Isabelle characters are 8 bits wide; a token is modelled as a string of code points
  below 256. \<open>isspace\<close> lists the code points below 256 that Python's \<^verbatim>\<open>str.isspace\<close>
  accepts, which are the ones \<^verbatim>\<open>str.strip()\<close> and \<^verbatim>\<open>str.split()\<close> treat as separators.
\<close>

definition isspace :: "char \<Rightarrow> bool" where
  "isspace c \<longleftrightarrow> (let n = (of_char c :: nat) in
     (9 \<le> n \<and> n \<le> 13) \<or> (28 \<le> n \<and> n \<le> 32) \<or> n = 133 \<or> n = 160)"

definition strip :: "string \<Rightarrow> string" where
  "strip s = rev (dropWhile isspace (rev (dropWhile isspace s)))"

definition replace :: "char \<Rightarrow> string \<Rightarrow> string \<Rightarrow> string" where
  "replace old new s = concat (map (\<lambda>c. if c = old then new else [c]) s)"

text \<open>
  \<^verbatim>\<open>str.split()\<close> without arguments: a scan that cuts at every run of whitespace and
  yields no empty word. \<open>w\<close> is the word being read, reversed.
\<close>

fun split_scan :: "string \<Rightarrow> string \<Rightarrow> string list" where
  "split_scan w [] = (if w = [] then [] else [rev w])"
| "split_scan w (c # cs) =
     (if isspace c then (if w = [] then split_scan [] cs else rev w # split_scan [] cs)
      else split_scan (c # w) cs)"

definition split :: "string \<Rightarrow> string list" where
  "split s = split_scan [] s"

text \<open>\<^verbatim>\<open>str.lower()\<close> on code points below 256.\<close>

definition lower_char :: "char \<Rightarrow> char" where
  "lower_char c = (let n = (of_char c :: nat) in
     if (65 \<le> n \<and> n \<le> 90) \<or> (192 \<le> n \<and> n \<le> 222 \<and> n \<noteq> 215)
     then char_of (n + 32) else c)"

definition lower :: "string \<Rightarrow> string" where
  "lower s = map lower_char s"

text \<open>
  Lines 76-77 of \<^verbatim>\<open>_update_state_after_plan\<close>:
  \<^verbatim>\<open>action_str.strip().replace('(', ' ').replace(')', '').replace(',', ' ')\<close>, then
  \<^verbatim>\<open>split()\<close>.
\<close>

definition parse_parts :: "string \<Rightarrow> string list" where
  "parse_parts action_str =
     split (replace CHR '','' '' '' (replace CHR '')'' [] (replace CHR ''('' '' '' (strip action_str))))"

section \<open>Action effects\<close>

definition apply_pickup :: "state \<Rightarrow> string \<Rightarrow> state" where
  "apply_pickup state0 block =
     (let s1 = (case ontable state0 of
                  Some xs \<Rightarrow> if block \<in> set xs then state0\<lparr>ontable := Some (remove1 block xs)\<rparr> else state0
                | None \<Rightarrow> state0);
          s2 = (case clear s1 of
                  Some xs \<Rightarrow> if block \<in> set xs then s1\<lparr>clear := Some (remove1 block xs)\<rparr> else s1
                | None \<Rightarrow> s1);
          s3 = s2\<lparr>holding := Some [block]\<rparr>
      in (case handempty s3 of Some _ \<Rightarrow> s3\<lparr>handempty := Some False\<rparr> | None \<Rightarrow> s3))"

definition apply_putdown :: "state \<Rightarrow> string \<Rightarrow> state" where
  "apply_putdown state0 block =
     (let s1 = (case holding state0 of
                  Some xs \<Rightarrow> if block \<in> set xs then state0\<lparr>holding := Some (remove1 block xs)\<rparr> else state0
                | None \<Rightarrow> state0);
          s2 = (case ontable s1 of None \<Rightarrow> s1\<lparr>ontable := Some []\<rparr> | Some _ \<Rightarrow> s1);
          s3 = s2\<lparr>ontable := map_option (\<lambda>xs. xs @ [block]) (ontable s2)\<rparr>;
          s4 = (case clear s3 of None \<Rightarrow> s3\<lparr>clear := Some []\<rparr> | Some _ \<Rightarrow> s3);
          s5 = s4\<lparr>clear := map_option (\<lambda>xs. xs @ [block]) (clear s4)\<rparr>
      in s5\<lparr>handempty := Some True\<rparr>)"

definition apply_stack :: "state \<Rightarrow> string \<Rightarrow> string \<Rightarrow> state" where
  "apply_stack state0 block_a block_b =
     (let s1 = (case holding state0 of
                  Some xs \<Rightarrow> if block_a \<in> set xs then state0\<lparr>holding := Some (remove1 block_a xs)\<rparr> else state0
                | None \<Rightarrow> state0);
          s2 = (case clear s1 of
                  Some xs \<Rightarrow> if block_b \<in> set xs then s1\<lparr>clear := Some (remove1 block_b xs)\<rparr> else s1
                | None \<Rightarrow> s1);
          s3 = (case on s2 of None \<Rightarrow> s2\<lparr>on := Some []\<rparr> | Some _ \<Rightarrow> s2);
          s4 = s3\<lparr>on := map_option (\<lambda>ps. ps @ [(block_a, block_b)]) (on s3)\<rparr>;
          s5 = (case clear s4 of None \<Rightarrow> s4\<lparr>clear := Some []\<rparr> | Some _ \<Rightarrow> s4);
          s6 = s5\<lparr>clear := map_option (\<lambda>xs. xs @ [block_a]) (clear s5)\<rparr>
      in s6\<lparr>handempty := Some True\<rparr>)"

definition apply_unstack :: "state \<Rightarrow> string \<Rightarrow> string \<Rightarrow> state" where
  "apply_unstack state0 block_a block_b =
     (let s1 = (case on state0 of
                  Some ps \<Rightarrow> state0\<lparr>on := Some (filter (\<lambda>(x, y). \<not> (x = block_a \<and> y = block_b)) ps)\<rparr>
                | None \<Rightarrow> state0);
          s2 = (case clear s1 of
                  Some xs \<Rightarrow> if block_a \<in> set xs then s1\<lparr>clear := Some (remove1 block_a xs)\<rparr> else s1
                | None \<Rightarrow> s1);
          s3 = (case clear s2 of None \<Rightarrow> s2\<lparr>clear := Some []\<rparr> | Some _ \<Rightarrow> s2);
          s4 = s3\<lparr>clear := map_option (\<lambda>xs. xs @ [block_b]) (clear s3)\<rparr>;
          s5 = s4\<lparr>holding := Some [block_a]\<rparr>
      in s5\<lparr>handempty := Some False\<rparr>)"

section \<open>The state-advance function\<close>

text \<open>
  A variable of the coordinator that holds a state holds a \<^verbatim>\<open>Dict\<close> or \<^verbatim>\<open>None\<close>:
  \<open>state option\<close>. The \<^verbatim>\<open>_apply_*\<close> helpers start with a test \<^verbatim>\<open>"key" in state\<close>, which
  raises \<^verbatim>\<open>TypeError\<close> on \<^verbatim>\<open>None\<close>.
\<close>

definition on_dict :: "(state \<Rightarrow> state) \<Rightarrow> state option \<Rightarrow> error + state option" where
  "on_dict f new_state = (case new_state of None \<Rightarrow> Inl TypeError | Some s \<Rightarrow> Inr (Some (f s)))"

text \<open>
  One iteration of the loop of \<^verbatim>\<open>_update_state_after_plan\<close> (blocks world, lines 73-100).
  \<^verbatim>\<open>parts[2]\<close> is read without a check of the length: \<^verbatim>\<open>IndexError\<close>.
\<close>

definition apply_action :: "state option \<Rightarrow> string \<Rightarrow> error + state option" where
  "apply_action new_state action_str =
     (let parts = parse_parts action_str in
      if length parts < 2 then Inr new_state
      else
        let action_name = lower (parts ! 0) in
        if action_name = ''pickup'' then on_dict (\<lambda>s. apply_pickup s (parts ! 1)) new_state
        else if action_name = ''putdown'' then on_dict (\<lambda>s. apply_putdown s (parts ! 1)) new_state
        else if action_name = ''stack'' then
          (if length parts < 3 then Inl IndexError
           else on_dict (\<lambda>s. apply_stack s (parts ! 1) (parts ! 2)) new_state)
        else if action_name = ''unstack'' then
          (if length parts < 3 then Inl IndexError
           else on_dict (\<lambda>s. apply_unstack s (parts ! 1) (parts ! 2)) new_state)
        else Inr new_state)"

text \<open>
  The loop over the plan: the value of the local \<^verbatim>\<open>new_state\<close> when the loop ends, or the
  exception that ended it.
\<close>

fun simulate :: "state option \<Rightarrow> string list \<Rightarrow> error + state option" where
  "simulate new_state [] = Inr new_state"
| "simulate new_state (action_str # plan) =
     (case apply_action new_state action_str of
        Inl e \<Rightarrow> Inl e
      | Inr s \<Rightarrow> simulate s plan)"

text \<open>
  \<^verbatim>\<open>_update_state_after_plan\<close> of \<^verbatim>\<open>hybrid_coordinator_blocks_world.py\<close>: the function
  body ends after the loop, without a \<^verbatim>\<open>return\<close>; the call evaluates to \<^verbatim>\<open>None\<close>.
\<close>

definition update_state_after_plan_bw :: "state option \<Rightarrow> string list \<Rightarrow> error + state option" where
  "update_state_after_plan_bw state0 plan =
     (case simulate state0 plan of Inl e \<Rightarrow> Inl e | Inr new_state \<Rightarrow> Inr None)"

text \<open>
  \<^verbatim>\<open>_update_state_after_plan\<close> of \<^verbatim>\<open>hybrid_coordinator.py\<close>: \<^verbatim>\<open>state.copy()\<close>, a loop whose
  body is \<^verbatim>\<open>pass\<close>, and \<^verbatim>\<open>return new_state\<close>.
\<close>

definition update_state_after_plan :: "state option \<Rightarrow> string list \<Rightarrow> error + state option" where
  "update_state_after_plan state0 plan =
     (case state0 of None \<Rightarrow> Inl (AttributeError ''copy'') | Some s \<Rightarrow> Inr (Some s))"

section \<open>The state validator\<close>

text \<open>\<^verbatim>\<open>state.get(key, [])\<close>: an absent key reads as the empty list.\<close>

definition get_list :: "'a list option \<Rightarrow> 'a list" where
  "get_list v = (case v of None \<Rightarrow> [] | Some xs \<Rightarrow> xs)"

text \<open>What an f-string prints for a \<^verbatim>\<open>bool\<close> and for an \<^verbatim>\<open>int\<close>.\<close>

definition str_bool :: "bool \<Rightarrow> string" where
  "str_bool b = (if b then ''True'' else ''False'')"

definition digit_char :: "nat \<Rightarrow> char" where
  "digit_char d = char_of (48 + d)"

fun str_nat :: "nat \<Rightarrow> string" where
  "str_nat n = (if n < 10 then [digit_char n] else str_nat (n div 10) @ [digit_char (n mod 10)])"

definition str_int :: "int \<Rightarrow> string" where
  "str_int i = (if i < 0 then CHR ''-'' # str_nat (nat (- i)) else str_nat (nat i))"

text \<open>The variable \<^verbatim>\<open>count\<close> of the first loop of \<^verbatim>\<open>_validate_blocks_world_state\<close>.\<close>

definition place_count :: "state \<Rightarrow> string \<Rightarrow> nat" where
  "place_count st block =
     (if block \<in> set (get_list (ontable st)) then 1 else 0) +
     (if block \<in> set (get_list (holding st)) then 1 else 0) +
     (if block \<in> fst ` set (get_list (on st)) then 1 else 0)"

definition places_message :: "state \<Rightarrow> string \<Rightarrow> string" where
  "places_message st block =
     ''Block '' @ block @ '' is in '' @ str_nat (place_count st block) @ '' places: ontable=''
       @ str_bool (block \<in> set (get_list (ontable st)))
       @ '', holding='' @ str_bool (block \<in> set (get_list (holding st)))
       @ '', on_top='' @ str_bool (block \<in> fst ` set (get_list (on st)))"

text \<open>
  \<^verbatim>\<open>_validate_blocks_world_state\<close> returns a \<^verbatim>\<open>bool\<close>; the second component of the model
  is what it passes to \<^verbatim>\<open>self.logger.error\<close>. Each of the three loops returns \<^verbatim>\<open>False\<close>
  at the first block that fails its test: \<open>find\<close>. A Python \<^verbatim>\<open>set\<close> is a duplicate-free
  list here; the order in which Python iterates a set is not fixed, the model takes the
  order of first occurrence. Only the choice of the logged block depends on that order
  (\<open>validate_ok_iff\<close> below characterises the returned boolean without it).
\<close>

definition validate_blocks_world_state :: "state \<Rightarrow> bool \<times> string list" where
  "validate_blocks_world_state st =
     (let ontable_blocks = remdups (get_list (ontable st));
          holding_blocks = remdups (get_list (holding st));
          on_blocks_top = remdups (map fst (get_list (on st)));
          on_blocks_bottom = remdups (map snd (get_list (on st)));
          all_blocks = remdups (ontable_blocks @ holding_blocks @ on_blocks_top @ on_blocks_bottom)
      in case find (\<lambda>block. place_count st block \<noteq> 1) all_blocks of
           Some block \<Rightarrow> (False, [places_message st block])
         | None \<Rightarrow>
            (let clear_blocks = remdups (get_list (clear st)) in
             case find (\<lambda>block. block \<notin> set on_blocks_bottom \<and> block \<notin> set clear_blocks) ontable_blocks of
               Some block \<Rightarrow> (False, [''Block '' @ block @ '' on table but not clear and nothing on it''])
             | None \<Rightarrow>
                (case find (\<lambda>block. block \<notin> set on_blocks_bottom \<and> block \<notin> set clear_blocks) on_blocks_top of
                   Some block \<Rightarrow> (False, [''Block '' @ block @ '' on top of stack but not clear''])
                 | None \<Rightarrow> (True, []))))"

section \<open>Example states\<close>

text \<open>The initial state of \<^verbatim>\<open>test_tower_building\<close> in \<^verbatim>\<open>examples/blocks_world_example.py\<close>.\<close>

definition tower_initial :: state where
  "tower_initial = \<lparr>ontable = Some [''a'', ''b'', ''c'', ''d'', ''e''],
     clear = Some [''a'', ''b'', ''c'', ''d'', ''e''], holding = Some [],
     handempty = Some True, on = Some []\<rparr>"


text \<open>A state whose only pair rests block a on a block b that is nowhere else.\<close>

definition floating_bottom :: state where
  "floating_bottom = \<lparr>ontable = Some [], clear = Some [''a''], holding = Some [],
     handempty = Some True, on = Some [(''a'', ''b'')]\<rparr>"

text \<open>
  An operand that the normalisation leaves as it is: not empty, no whitespace, no
  parenthesis, no comma.
\<close>

definition clean :: "string \<Rightarrow> bool" where
  "clean x \<longleftrightarrow> x \<noteq> [] \<and>
     (\<forall>c \<in> set x. \<not> isspace c \<and> c \<noteq> CHR ''('' \<and> c \<noteq> CHR '')'' \<and> c \<noteq> CHR '','')"

section \<open>Consistency of a state\<close>

text \<open>The blocks that a state mentions, in any of its relations.\<close>

definition referenced :: "state \<Rightarrow> string set" where
  "referenced st = set (get_list (ontable st)) \<union> set (get_list (clear st))
     \<union> set (get_list (holding st)) \<union> fst ` set (get_list (on st)) \<union> snd ` set (get_list (on st))"

text \<open>Each block that the state mentions is on the table, held, or the top of a pair, and only one of these.\<close>

definition one_place :: "state \<Rightarrow> bool" where
  "one_place st \<longleftrightarrow> (\<forall>block \<in> referenced st. place_count st block = 1)"

text \<open>
  The lists of a state are used as sets: no block is listed twice on the table or as
  the top of two pairs, at most one block is held, and the flag \<^verbatim>\<open>handempty\<close> is true
  exactly when nothing is held.
\<close>

definition well_formed :: "state \<Rightarrow> bool" where
  "well_formed st \<longleftrightarrow> distinct (get_list (ontable st))
     \<and> distinct (map fst (get_list (on st)))
     \<and> length (get_list (holding st)) \<le> 1
     \<and> (handempty st = Some True \<longleftrightarrow> get_list (holding st) = [])"

definition consistent :: "state \<Rightarrow> bool" where
  "consistent st \<longleftrightarrow> one_place st \<and> well_formed st"

text \<open>
  The preconditions of the four actions, as the comments of the \<^verbatim>\<open>_apply_*\<close> functions
  state them. The functions do not test them.
\<close>

definition pickup_pre :: "state \<Rightarrow> string \<Rightarrow> bool" where
  "pickup_pre st block \<longleftrightarrow> block \<in> set (get_list (clear st))
     \<and> block \<in> set (get_list (ontable st)) \<and> handempty st = Some True"

definition putdown_pre :: "state \<Rightarrow> string \<Rightarrow> bool" where
  "putdown_pre st block \<longleftrightarrow> block \<in> set (get_list (holding st))"

definition stack_pre :: "state \<Rightarrow> string \<Rightarrow> string \<Rightarrow> bool" where
  "stack_pre st block_a block_b \<longleftrightarrow> block_a \<in> set (get_list (holding st))
     \<and> block_b \<in> set (get_list (clear st))"

definition unstack_pre :: "state \<Rightarrow> string \<Rightarrow> string \<Rightarrow> bool" where
  "unstack_pre st block_a block_b \<longleftrightarrow> (block_a, block_b) \<in> set (get_list (on st))
     \<and> block_a \<in> set (get_list (clear st)) \<and> handempty st = Some True"

text \<open>
  A token is legal in a state when the loop skips it, or it is one of the four actions
  with all its operands and its precondition holds. The cases follow \<open>apply_action\<close>.
\<close>

definition legal_token :: "state \<Rightarrow> string \<Rightarrow> bool" where
  "legal_token st action_str =
     (let parts = parse_parts action_str in
      if length parts < 2 then True
      else
        let action_name = lower (parts ! 0) in
        if action_name = ''pickup'' then pickup_pre st (parts ! 1)
        else if action_name = ''putdown'' then putdown_pre st (parts ! 1)
        else if action_name = ''stack'' then 3 \<le> length parts \<and> stack_pre st (parts ! 1) (parts ! 2)
        else if action_name = ''unstack'' then 3 \<le> length parts \<and> unstack_pre st (parts ! 1) (parts ! 2)
        else True)"

text \<open>A plan is legal from a state when each token is legal in the state the tokens before it lead to.\<close>

fun legal_plan :: "state \<Rightarrow> string list \<Rightarrow> bool" where
  "legal_plan st [] = True"
| "legal_plan st (action_str # rest) =
     (legal_token st action_str \<and>
      (case apply_action (Some st) action_str of
         Inr (Some st') \<Rightarrow> legal_plan st' rest
       | _ \<Rightarrow> False))"

text \<open>The plan of the tower scenario.\<close>

definition tower_plan :: "string list" where
  "tower_plan = [''pickup b'', ''stack b a'', ''pickup c'', ''stack c b'',
     ''pickup d'', ''stack d c'', ''pickup e'', ''stack e d'']"

section \<open>The coordinator\<close>

text \<open>
  A subgoal is the dictionary that the decomposition prompt of \<^verbatim>\<open>llm_interface.py\<close> asks
  for. The coordinator reads its \<^verbatim>\<open>subgoal_id\<close> only.
\<close>

record subgoal_spec =
  subgoal_id :: int
  description :: string
  formal_goal :: string
  prerequisites :: "string list"
  resources_needed :: "string list"

text \<open>
  The coordinator calls capabilities that it is constructed with (\<^verbatim>\<open>self.llm\<close>,
  \<^verbatim>\<open>self.planner\<close>) and reads the domain file. They are parameters of the model: each is
  a function on an outside world \<open>'w\<close> that returns a value or raises. The model keeps
  a log of the calls it makes and of what it passes to \<^verbatim>\<open>self.logger.error\<close>.
\<close>

datatype event =
    Read_call string
  | Decompose_call string string
  | Resolve_call "subgoal_spec list" state
  | Solve_call string subgoal_spec "state option"
  | Adapt_call subgoal_spec string
  | Log_error string

record 'w world =
  events :: "event list"
  ext :: 'w

record 'w capabilities =
  open_read :: "string \<Rightarrow> 'w \<Rightarrow> (error + string) \<times> 'w"
  llm_decompose_goal :: "string \<Rightarrow> string \<Rightarrow> 'w \<Rightarrow> (error + subgoal_spec list) \<times> 'w"
  llm_resolve_conflicts :: "subgoal_spec list \<Rightarrow> state \<Rightarrow> 'w \<Rightarrow> (error + subgoal_spec list) \<times> 'w"
  llm_adapt_plan :: "subgoal_spec \<Rightarrow> string \<Rightarrow> 'w \<Rightarrow> (error + subgoal_spec) \<times> 'w"
  planner_solve_subgoal ::
    "string \<Rightarrow> subgoal_spec \<Rightarrow> state option \<Rightarrow> 'w \<Rightarrow> (error + bool \<times> string list) \<times> 'w"

text \<open>A call of a capability: the call is logged, the capability runs on the outside world.\<close>

definition call :: "event \<Rightarrow> ('w \<Rightarrow> (error + 'a) \<times> 'w) \<Rightarrow> 'w world \<Rightarrow> (error + 'a) \<times> 'w world" where
  "call ev f w = (case f (ext w) of (r, x) \<Rightarrow> (r, \<lparr>events = events w @ [ev], ext = x\<rparr>))"

definition logger_error :: "string \<Rightarrow> 'w world \<Rightarrow> 'w world" where
  "logger_error msg w = w\<lparr>events := events w @ [Log_error msg]\<rparr>"

text \<open>\<^verbatim>\<open>range(n)\<close> for an \<^verbatim>\<open>int\<close> n: empty when n is not positive.\<close>

definition py_range :: "int \<Rightarrow> int list" where
  "py_range n = map int [0..<nat n]"

text \<open>
  The loop of \<^verbatim>\<open>_solve_subgoal_with_retry\<close> over the attempts that are left. The loop
  rebinds \<^verbatim>\<open>subgoal\<close> to the adapted subgoal.
\<close>

fun retry_loop ::
  "'w capabilities \<Rightarrow> string \<Rightarrow> state option \<Rightarrow> int \<Rightarrow> int list \<Rightarrow> subgoal_spec \<Rightarrow> 'w world
     \<Rightarrow> (error + bool \<times> string list) \<times> 'w world" where
  "retry_loop caps domain_file current_state max_retries [] subgoal w = (Inr (False, []), w)"
| "retry_loop caps domain_file current_state max_retries (attempt # rest) subgoal w =
     (case call (Solve_call domain_file subgoal current_state)
             (planner_solve_subgoal caps domain_file subgoal current_state) w of
        (Inl e, w1) \<Rightarrow> (Inl e, w1)
      | (Inr (success, plan), w1) \<Rightarrow>
          if success then (Inr (True, plan), w1)
          else if attempt < max_retries - 1 then
            (let error_info = ''Planning failed on attempt '' @ str_int (attempt + 1) in
             case call (Adapt_call subgoal error_info) (llm_adapt_plan caps subgoal error_info) w1 of
               (Inl e, w2) \<Rightarrow> (Inl e, w2)
             | (Inr adapted_subgoal, w2) \<Rightarrow>
                 retry_loop caps domain_file current_state max_retries rest adapted_subgoal w2)
          else retry_loop caps domain_file current_state max_retries rest subgoal w1)"

definition solve_subgoal_with_retry ::
  "'w capabilities \<Rightarrow> string \<Rightarrow> subgoal_spec \<Rightarrow> state option \<Rightarrow> int \<Rightarrow> 'w world
     \<Rightarrow> (error + bool \<times> string list) \<times> 'w world" where
  "solve_subgoal_with_retry caps domain_file subgoal current_state max_retries w =
     retry_loop caps domain_file current_state max_retries (py_range max_retries) subgoal w"

text \<open>
  \<^verbatim>\<open>_extract_domain_info\<close> and the two calls of the section "high-level planning & check"
  of \<^verbatim>\<open>plan\<close> (lines 17-19 of \<^verbatim>\<open>hybrid_coordinator.py\<close>).
\<close>

definition extract_domain_info :: "'w capabilities \<Rightarrow> string \<Rightarrow> 'w world \<Rightarrow> (error + string) \<times> 'w world" where
  "extract_domain_info caps domain_file w =
     (case call (Read_call domain_file) (open_read caps domain_file) w of
        (Inl e, w1) \<Rightarrow> (Inl e, w1)
      | (Inr pddl_content, w1) \<Rightarrow> (Inr (''PDDL Domain File Content:'' @ [CHR 0x0A] @ pddl_content), w1))"

definition high_level_planning ::
  "'w capabilities \<Rightarrow> string \<Rightarrow> string \<Rightarrow> state \<Rightarrow> 'w world \<Rightarrow> (error + subgoal_spec list) \<times> 'w world" where
  "high_level_planning caps natural_goal domain_file initial_state w =
     (case extract_domain_info caps domain_file w of
        (Inl e, w1) \<Rightarrow> (Inl e, w1)
      | (Inr domain_info, w1) \<Rightarrow>
         (case call (Decompose_call natural_goal domain_info)
                 (llm_decompose_goal caps natural_goal domain_info) w1 of
            (Inl e, w2) \<Rightarrow> (Inl e, w2)
          | (Inr subgoals, w2) \<Rightarrow>
              call (Resolve_call subgoals initial_state)
                (llm_resolve_conflicts caps subgoals initial_state) w2))"

text \<open>
  The \<^verbatim>\<open>for subgoal in subgoals\<close> loop of \<^verbatim>\<open>plan\<close>. It ends by the \<^verbatim>\<open>return False, []\<close>
  inside it, or by running out of subgoals, with the values of \<^verbatim>\<open>complete_plan\<close> and
  \<^verbatim>\<open>current_state\<close> it has reached. The two coordinators differ in
  \<^verbatim>\<open>_update_state_after_plan\<close> only, the parameter \<open>upd\<close>. The call of
  \<^verbatim>\<open>_solve_subgoal_with_retry\<close> leaves \<^verbatim>\<open>max_retries\<close> at its default, 3.
\<close>

datatype 's loop_exit =
    Returned "bool \<times> string list"
  | Completed "string list" 's

fun plan_loop ::
  "(state option \<Rightarrow> string list \<Rightarrow> error + state option) \<Rightarrow> 'w capabilities \<Rightarrow> string
     \<Rightarrow> subgoal_spec list \<Rightarrow> string list \<Rightarrow> state option \<Rightarrow> 'w world \<Rightarrow> (error + state option loop_exit) \<times> 'w world" where
  "plan_loop upd caps domain_file [] complete_plan current_state w =
     (Inr (Completed complete_plan current_state), w)"
| "plan_loop upd caps domain_file (subgoal # rest) complete_plan current_state w =
     (case solve_subgoal_with_retry caps domain_file subgoal current_state 3 w of
        (Inl e, w1) \<Rightarrow> (Inl e, w1)
      | (Inr (success, subplan), w1) \<Rightarrow>
          if \<not> success then
            (Inr (Returned (False, [])),
             logger_error (''Failed to solve subgoal '' @ str_int (subgoal_id subgoal)) w1)
          else
            (case upd current_state subplan of
               Inl e \<Rightarrow> (Inl e, w1)
             | Inr new_state \<Rightarrow>
                 plan_loop upd caps domain_file rest (complete_plan @ subplan) new_state w1))"

definition plan_with ::
  "(state option \<Rightarrow> string list \<Rightarrow> error + state option) \<Rightarrow> 'w capabilities \<Rightarrow> string \<Rightarrow> string
     \<Rightarrow> state \<Rightarrow> 'w world \<Rightarrow> (error + bool \<times> string list) \<times> 'w world" where
  "plan_with upd caps natural_goal domain_file initial_state w =
     (case high_level_planning caps natural_goal domain_file initial_state w of
        (Inl e, w1) \<Rightarrow> (Inl e, w1)
      | (Inr subgoals, w1) \<Rightarrow>
         (case plan_loop upd caps domain_file subgoals [] (Some initial_state) w1 of
            (Inl e, w2) \<Rightarrow> (Inl e, w2)
          | (Inr (Returned result), w2) \<Rightarrow> (Inr result, w2)
          | (Inr (Completed complete_plan current_state), w2) \<Rightarrow> (Inr (True, complete_plan), w2)))"

text \<open>\<^verbatim>\<open>plan\<close> of \<^verbatim>\<open>hybrid_coordinator.py\<close> and of \<^verbatim>\<open>hybrid_coordinator_blocks_world.py\<close>.\<close>

definition plan ::
  "'w capabilities \<Rightarrow> string \<Rightarrow> string \<Rightarrow> state \<Rightarrow> 'w world \<Rightarrow> (error + bool \<times> string list) \<times> 'w world" where
  "plan = plan_with update_state_after_plan"

definition plan_bw ::
  "'w capabilities \<Rightarrow> string \<Rightarrow> string \<Rightarrow> state \<Rightarrow> 'w world \<Rightarrow> (error + bool \<times> string list) \<times> 'w world" where
  "plan_bw = plan_with update_state_after_plan_bw"

text \<open>The number of calls of the adaptation capability in a log.\<close>

fun is_adapt_call :: "event \<Rightarrow> bool" where
  "is_adapt_call (Adapt_call sg e) = True"
| "is_adapt_call ev = False"

fun is_solve_call :: "event \<Rightarrow> bool" where
  "is_solve_call (Solve_call d sg st) = True"
| "is_solve_call ev = False"

definition adapt_calls :: "'w world \<Rightarrow> nat" where
  "adapt_calls w = length (filter is_adapt_call (events w))"

definition solve_calls :: "'w world \<Rightarrow> nat" where
  "solve_calls w = length (filter is_solve_call (events w))"

text \<open>A solve capability that reports failure on every call, and capabilities that return.\<close>

definition always_fails :: "'w capabilities \<Rightarrow> bool" where
  "always_fails caps \<longleftrightarrow>
     (\<forall>domain_file sg st x. \<exists>p x'. planner_solve_subgoal caps domain_file sg st x = (Inr (False, p), x'))"

definition adapt_returns :: "'w capabilities \<Rightarrow> bool" where
  "adapt_returns caps \<longleftrightarrow> (\<forall>sg e x. \<exists>sg' x'. llm_adapt_plan caps sg e x = (Inr sg', x'))"

text \<open>
  Capabilities for the examples: the domain file reads, the decomposition gives three
  subgoals, the solver solves subgoal 1 by \<^verbatim>\<open>pickup b\<close> and fails on every other subgoal,
  the adaptation returns the subgoal it was given.
\<close>

definition subgoal_1 :: subgoal_spec where
  "subgoal_1 = \<lparr>subgoal_id = 1, description = ''hold b'', formal_goal = ''(holding b)'',
     prerequisites = [], resources_needed = [''b'']\<rparr>"

definition subgoal_2 :: subgoal_spec where
  "subgoal_2 = \<lparr>subgoal_id = 2, description = ''b on a'', formal_goal = ''(on b a)'',
     prerequisites = [''(holding b)''], resources_needed = [''a'', ''b'']\<rparr>"

definition subgoal_3 :: subgoal_spec where
  "subgoal_3 = \<lparr>subgoal_id = 3, description = ''c on b'', formal_goal = ''(on c b)'',
     prerequisites = [''(on b a)''], resources_needed = [''b'', ''c'']\<rparr>"

definition example_caps :: "unit capabilities" where
  "example_caps = \<lparr>
     open_read = (\<lambda>domain_file x. (Inr ''(define (domain blocks))'', x)),
     llm_decompose_goal = (\<lambda>natural_goal domain_info x. (Inr [subgoal_1, subgoal_2, subgoal_3], x)),
     llm_resolve_conflicts = (\<lambda>subgoals st x. (Inr subgoals, x)),
     llm_adapt_plan = (\<lambda>sg e x. (Inr sg, x)),
     planner_solve_subgoal = (\<lambda>domain_file sg st x.
        (if subgoal_id sg = 1 then Inr (True, [''pickup b'']) else Inr (False, []), x))\<rparr>"

definition failing_caps :: "unit capabilities" where
  "failing_caps = example_caps\<lparr>planner_solve_subgoal :=
      (\<lambda>domain_file sg st x. (Inr (False, [''Planning error: no plan'']), x))\<rparr>"

definition start :: "unit world" where
  "start = \<lparr>events = [], ext = ()\<rparr>"

section \<open>The decomposition capability of llm_interface.py\<close>

text \<open>
  \<^verbatim>\<open>decompose_goal\<close>, \<^verbatim>\<open>resolve_conflicts\<close> and \<^verbatim>\<open>adapt_plan\<close> of \<^verbatim>\<open>LLMHighlevelPlanner\<close> each
  send a prompt and end with the same statement:
  \<^verbatim>\<open>try: return json.loads(content)  except json.JSONDecodeError: return self._fallback_parse(content)\<close>.
  The reply \<open>content\<close> of the service and \<^verbatim>\<open>json.loads\<close> are parameters: \<open>json_loads\<close>
  gives \<open>None\<close> where \<^verbatim>\<open>json.loads\<close> raises \<^verbatim>\<open>JSONDecodeError\<close>.

  \<^verbatim>\<open>LLMHighlevelPlanner\<close> defines the methods \<^verbatim>\<open>__init__\<close>, \<^verbatim>\<open>decompose_goal\<close>,
  \<^verbatim>\<open>resolve_conflicts\<close> and \<^verbatim>\<open>adapt_plan\<close>, and its instances have the attributes \<^verbatim>\<open>model\<close>
  and \<^verbatim>\<open>client\<close>. Reading any other attribute of \<^verbatim>\<open>self\<close> raises \<^verbatim>\<open>AttributeError\<close>.
\<close>

definition llm_attributes :: "string list" where
  "llm_attributes = [''__init__'', ''decompose_goal'', ''resolve_conflicts'', ''adapt_plan'',
     ''model'', ''client'']"

definition getattr_llm :: "string \<Rightarrow> error + string" where
  "getattr_llm name = (if name \<in> set llm_attributes then Inr name else Inl (AttributeError name))"

text \<open>
  The \<^verbatim>\<open>except\<close> branch: \<^verbatim>\<open>self._fallback_parse\<close> is looked up before anything is
  called. The second branch below is never taken for this name.
\<close>

definition fallback_parse :: "string \<Rightarrow> error + 'j" where
  "fallback_parse content =
     (case getattr_llm ''_fallback_parse'' of
        Inl e \<Rightarrow> Inl e
      | Inr method \<Rightarrow> Inl (TypeError))"

definition parse_reply :: "(string \<Rightarrow> 'j option) \<Rightarrow> string \<Rightarrow> error + 'j" where
  "parse_reply json_loads content =
     (case json_loads content of
        Some v \<Rightarrow> Inr v
      | None \<Rightarrow> fallback_parse content)"

definition decompose_goal :: "(string \<Rightarrow> 'j option) \<Rightarrow> string \<Rightarrow> error + 'j" where
  "decompose_goal json_loads content = parse_reply json_loads content"

definition resolve_conflicts :: "(string \<Rightarrow> 'j option) \<Rightarrow> string \<Rightarrow> error + 'j" where
  "resolve_conflicts json_loads content = parse_reply json_loads content"

definition adapt_plan :: "(string \<Rightarrow> 'j option) \<Rightarrow> string \<Rightarrow> error + 'j" where
  "adapt_plan json_loads content = parse_reply json_loads content"

text \<open>A loader for the examples: it accepts the text of the empty list and nothing else.\<close>

definition loads_empty_list :: "string \<Rightarrow> subgoal_spec list option" where
  "loads_empty_list s = (if s = ''[]'' then Some [] else None)"

section \<open>The state as Python objects in a store\<close>

text \<open>
  The functions above treat a state as a value. In Python the state is a \<^verbatim>\<open>dict\<close>
  object whose values are list objects, the \<^verbatim>\<open>_apply_*\<close> functions change these objects
  in place, and two variables can name the same object. To say what a call leaves
  untouched, this section models the same functions on a store: addresses, and at each
  allocated address a list object or a dict object. A dict holds, for each of its list
  keys, the address of a list; the elements of a list are immutable (block names and
  pairs of block names).
\<close>

type_synonym addr = nat

datatype item = Block string | On_pair string string

datatype list_key = Ontable | Clear | Holding | On

record dict =
  d_ontable :: "addr option"
  d_clear :: "addr option"
  d_holding :: "addr option"
  d_handempty :: "bool option"
  d_on :: "addr option"

datatype pyobj = List_obj "item list" | Dict_obj dict

record heap =
  cells :: "addr \<Rightarrow> pyobj option"
  next_addr :: addr

definition empty_dict :: dict where
  "empty_dict = \<lparr>d_ontable = None, d_clear = None, d_holding = None, d_handempty = None, d_on = None\<rparr>"

fun ref_of :: "dict \<Rightarrow> list_key \<Rightarrow> addr option" where
  "ref_of f Ontable = d_ontable f"
| "ref_of f Clear = d_clear f"
| "ref_of f Holding = d_holding f"
| "ref_of f On = d_on f"

fun bind_ref :: "dict \<Rightarrow> list_key \<Rightarrow> addr \<Rightarrow> dict" where
  "bind_ref f Ontable a = f\<lparr>d_ontable := Some a\<rparr>"
| "bind_ref f Clear a = f\<lparr>d_clear := Some a\<rparr>"
| "bind_ref f Holding a = f\<lparr>d_holding := Some a\<rparr>"
| "bind_ref f On a = f\<lparr>d_on := Some a\<rparr>"

text \<open>
  Reading an object. A variable of the program that holds a dict always names a dict
  object, and a list key of a dict always names a list object; the other cases below
  cannot arise from the program and read as the empty dict and the empty list.
\<close>

definition the_dict :: "heap \<Rightarrow> addr \<Rightarrow> dict" where
  "the_dict h d = (case cells h d of Some (Dict_obj f) \<Rightarrow> f | _ \<Rightarrow> empty_dict)"

definition the_list :: "heap \<Rightarrow> addr \<Rightarrow> item list" where
  "the_list h a = (case cells h a of Some (List_obj xs) \<Rightarrow> xs | _ \<Rightarrow> [])"

text \<open>Changing an object in place, and creating an object.\<close>

definition store :: "heap \<Rightarrow> addr \<Rightarrow> pyobj \<Rightarrow> heap" where
  "store h a obj = h\<lparr>cells := (cells h)(a \<mapsto> obj)\<rparr>"

definition alloc :: "heap \<Rightarrow> pyobj \<Rightarrow> addr \<times> heap" where
  "alloc h obj = (next_addr h, \<lparr>cells = (cells h)(next_addr h \<mapsto> obj), next_addr = Suc (next_addr h)\<rparr>)"

text \<open>
  The statements that the \<^verbatim>\<open>_apply_*\<close> functions are made of, for a list key \<open>k\<close>:
  \<^item> \<^verbatim>\<open>if k in state and x in state[k]: state[k].remove(x)\<close>
  \<^item> \<^verbatim>\<open>state[k] = [...]\<close>, which creates a list object and binds the key to it
  \<^item> \<^verbatim>\<open>if k not in state: state[k] = []\<close>
  \<^item> \<^verbatim>\<open>state[k].append(x)\<close>, always after the statement before, so that the key is bound
  \<^item> \<^verbatim>\<open>state["handempty"] = b\<close>
\<close>

definition remove_if_listed :: "heap \<Rightarrow> addr \<Rightarrow> list_key \<Rightarrow> item \<Rightarrow> heap" where
  "remove_if_listed h state0 k x =
     (case ref_of (the_dict h state0) k of
        Some a \<Rightarrow> if x \<in> set (the_list h a) then store h a (List_obj (remove1 x (the_list h a))) else h
      | None \<Rightarrow> h)"

definition assign_list :: "heap \<Rightarrow> addr \<Rightarrow> list_key \<Rightarrow> item list \<Rightarrow> heap" where
  "assign_list h state0 k xs =
     (case alloc h (List_obj xs) of
        (a, h1) \<Rightarrow> store h1 state0 (Dict_obj (bind_ref (the_dict h1 state0) k a)))"

definition ensure_list :: "heap \<Rightarrow> addr \<Rightarrow> list_key \<Rightarrow> heap" where
  "ensure_list h state0 k =
     (case ref_of (the_dict h state0) k of None \<Rightarrow> assign_list h state0 k [] | Some a \<Rightarrow> h)"

definition append_item :: "heap \<Rightarrow> addr \<Rightarrow> list_key \<Rightarrow> item \<Rightarrow> heap" where
  "append_item h state0 k x =
     (case ref_of (the_dict h state0) k of
        Some a \<Rightarrow> store h a (List_obj (the_list h a @ [x]))
      | None \<Rightarrow> h)"

definition assign_flag :: "heap \<Rightarrow> addr \<Rightarrow> bool \<Rightarrow> heap" where
  "assign_flag h state0 b = store h state0 (Dict_obj ((the_dict h state0)\<lparr>d_handempty := Some b\<rparr>))"

text \<open>The four \<^verbatim>\<open>_apply_*\<close> functions, statement by statement.\<close>

definition apply_pickup_h :: "heap \<Rightarrow> addr \<Rightarrow> string \<Rightarrow> heap" where
  "apply_pickup_h h state0 block =
     (let h1 = remove_if_listed h state0 Ontable (Block block);
          h2 = remove_if_listed h1 state0 Clear (Block block);
          h3 = assign_list h2 state0 Holding [Block block]
      in (case d_handempty (the_dict h3 state0) of
            Some _ \<Rightarrow> assign_flag h3 state0 False
          | None \<Rightarrow> h3))"

definition apply_putdown_h :: "heap \<Rightarrow> addr \<Rightarrow> string \<Rightarrow> heap" where
  "apply_putdown_h h state0 block =
     (let h1 = remove_if_listed h state0 Holding (Block block);
          h2 = ensure_list h1 state0 Ontable;
          h3 = append_item h2 state0 Ontable (Block block);
          h4 = ensure_list h3 state0 Clear;
          h5 = append_item h4 state0 Clear (Block block)
      in assign_flag h5 state0 True)"

definition apply_stack_h :: "heap \<Rightarrow> addr \<Rightarrow> string \<Rightarrow> string \<Rightarrow> heap" where
  "apply_stack_h h state0 block_a block_b =
     (let h1 = remove_if_listed h state0 Holding (Block block_a);
          h2 = remove_if_listed h1 state0 Clear (Block block_b);
          h3 = ensure_list h2 state0 On;
          h4 = append_item h3 state0 On (On_pair block_a block_b);
          h5 = ensure_list h4 state0 Clear;
          h6 = append_item h5 state0 Clear (Block block_a)
      in assign_flag h6 state0 True)"

definition apply_unstack_h :: "heap \<Rightarrow> addr \<Rightarrow> string \<Rightarrow> string \<Rightarrow> heap" where
  "apply_unstack_h h state0 block_a block_b =
     (let h1 = (case ref_of (the_dict h state0) On of
                  Some a \<Rightarrow> assign_list h state0 On
                              (filter (\<lambda>i. i \<noteq> On_pair block_a block_b) (the_list h a))
                | None \<Rightarrow> h);
          h2 = remove_if_listed h1 state0 Clear (Block block_a);
          h3 = ensure_list h2 state0 Clear;
          h4 = append_item h3 state0 Clear (Block block_b);
          h5 = assign_list h4 state0 Holding [Block block_a]
      in assign_flag h5 state0 False)"

text \<open>
  \<^verbatim>\<open>copy.deepcopy(state)\<close>: a new dict and, for each list key, a new list with the same
  elements. The memo of \<^verbatim>\<open>deepcopy\<close> maps each list already copied to its copy, so that
  two keys that name one list name one list in the copy as well. \<^verbatim>\<open>deepcopy(None)\<close> is
  \<^verbatim>\<open>None\<close>.
\<close>

definition copy_list :: "(addr \<times> addr) list \<Rightarrow> heap \<Rightarrow> addr \<Rightarrow> addr \<times> (addr \<times> addr) list \<times> heap" where
  "copy_list memo h a =
     (case map_of memo a of
        Some a' \<Rightarrow> (a', memo, h)
      | None \<Rightarrow> (case alloc h (List_obj (the_list h a)) of (a', h1) \<Rightarrow> (a', (a, a') # memo, h1)))"

definition copy_key ::
  "dict \<Rightarrow> list_key \<Rightarrow> (addr \<times> addr) list \<times> heap \<times> dict \<Rightarrow> (addr \<times> addr) list \<times> heap \<times> dict" where
  "copy_key src k acc =
     (case acc of (memo, h, tgt) \<Rightarrow>
        (case ref_of src k of
           None \<Rightarrow> (memo, h, tgt)
         | Some a \<Rightarrow> (case copy_list memo h a of (a', memo', h') \<Rightarrow> (memo', h', bind_ref tgt k a'))))"

definition deepcopy :: "heap \<Rightarrow> addr option \<Rightarrow> addr option \<times> heap" where
  "deepcopy h state0 =
     (case state0 of
        None \<Rightarrow> (None, h)
      | Some d \<Rightarrow>
         (let src = the_dict h d in
          case alloc h (Dict_obj empty_dict) of (d', h0) \<Rightarrow>
            (case fold (copy_key src) [Ontable, Clear, Holding, On]
                    ([], h0, empty_dict\<lparr>d_handempty := d_handempty src\<rparr>) of
               (memo, h1, tgt) \<Rightarrow> (Some d', store h1 d' (Dict_obj tgt)))))"

text \<open>\<^verbatim>\<open>state.copy()\<close>: a new dict with the same values, that is, the same list objects.\<close>

definition dict_copy :: "heap \<Rightarrow> addr \<Rightarrow> addr \<times> heap" where
  "dict_copy h d = alloc h (Dict_obj (the_dict h d))"

text \<open>The loop of \<^verbatim>\<open>_update_state_after_plan\<close> on the store, with the cases of \<open>apply_action\<close>.\<close>

definition on_dict_h :: "(heap \<Rightarrow> addr \<Rightarrow> heap) \<Rightarrow> heap \<Rightarrow> addr option \<Rightarrow> error option \<times> heap" where
  "on_dict_h f h new_state = (case new_state of None \<Rightarrow> (Some TypeError, h) | Some d \<Rightarrow> (None, f h d))"

definition apply_action_h :: "heap \<Rightarrow> addr option \<Rightarrow> string \<Rightarrow> error option \<times> heap" where
  "apply_action_h h new_state action_str =
     (let parts = parse_parts action_str in
      if length parts < 2 then (None, h)
      else
        let action_name = lower (parts ! 0) in
        if action_name = ''pickup'' then on_dict_h (\<lambda>h d. apply_pickup_h h d (parts ! 1)) h new_state
        else if action_name = ''putdown'' then on_dict_h (\<lambda>h d. apply_putdown_h h d (parts ! 1)) h new_state
        else if action_name = ''stack'' then
          (if length parts < 3 then (Some IndexError, h)
           else on_dict_h (\<lambda>h d. apply_stack_h h d (parts ! 1) (parts ! 2)) h new_state)
        else if action_name = ''unstack'' then
          (if length parts < 3 then (Some IndexError, h)
           else on_dict_h (\<lambda>h d. apply_unstack_h h d (parts ! 1) (parts ! 2)) h new_state)
        else (None, h))"

fun simulate_h :: "heap \<Rightarrow> addr option \<Rightarrow> string list \<Rightarrow> error option \<times> heap" where
  "simulate_h h new_state [] = (None, h)"
| "simulate_h h new_state (action_str # rest) =
     (case apply_action_h h new_state action_str of
        (Some e, h1) \<Rightarrow> (Some e, h1)
      | (None, h1) \<Rightarrow> simulate_h h1 new_state rest)"

text \<open>
  \<^verbatim>\<open>_update_state_after_plan\<close> of the blocks-world coordinator (deep copy, loop, no
  \<^verbatim>\<open>return\<close>) and of \<^verbatim>\<open>hybrid_coordinator.py\<close> (\<^verbatim>\<open>state.copy()\<close>, empty loop,
  \<^verbatim>\<open>return new_state\<close>).
\<close>

definition update_state_after_plan_bw_h :: "heap \<Rightarrow> addr option \<Rightarrow> string list \<Rightarrow> (error + addr option) \<times> heap" where
  "update_state_after_plan_bw_h h state0 tokens =
     (case deepcopy h state0 of (new_state, h1) \<Rightarrow>
        (case simulate_h h1 new_state tokens of
           (Some e, h2) \<Rightarrow> (Inl e, h2)
         | (None, h2) \<Rightarrow> (Inr None, h2)))"

definition update_state_after_plan_h :: "heap \<Rightarrow> addr option \<Rightarrow> string list \<Rightarrow> (error + addr option) \<times> heap" where
  "update_state_after_plan_h h state0 tokens =
     (case state0 of
        None \<Rightarrow> (Inl (AttributeError ''copy''), h)
      | Some d \<Rightarrow> (case dict_copy h d of (new_state, h1) \<Rightarrow> (Inr (Some new_state), h1)))"

text \<open>The value of the state that a variable names: what a capability is handed.\<close>

definition blocks_of :: "item list \<Rightarrow> string list" where
  "blocks_of xs = concat (map (\<lambda>i. case i of Block b \<Rightarrow> [b] | On_pair a b \<Rightarrow> []) xs)"

definition pairs_of :: "item list \<Rightarrow> (string \<times> string) list" where
  "pairs_of xs = concat (map (\<lambda>i. case i of Block b \<Rightarrow> [] | On_pair a b \<Rightarrow> [(a, b)]) xs)"

definition snapshot_dict :: "heap \<Rightarrow> addr \<Rightarrow> state" where
  "snapshot_dict h d =
     (let f = the_dict h d in
      \<lparr>ontable = map_option (\<lambda>a. blocks_of (the_list h a)) (d_ontable f),
       clear = map_option (\<lambda>a. blocks_of (the_list h a)) (d_clear f),
       holding = map_option (\<lambda>a. blocks_of (the_list h a)) (d_holding f),
       handempty = d_handempty f,
       on = map_option (\<lambda>a. pairs_of (the_list h a)) (d_on f)\<rparr>)"

definition snapshot :: "heap \<Rightarrow> addr option \<Rightarrow> state option" where
  "snapshot h v = map_option (snapshot_dict h) v"

text \<open>
  \<^verbatim>\<open>plan\<close> on the store. The capabilities are handed the value of the state; their own
  handling of the object is outside the coordinator.
\<close>

fun plan_loop_h ::
  "(heap \<Rightarrow> addr option \<Rightarrow> string list \<Rightarrow> (error + addr option) \<times> heap) \<Rightarrow> 'w capabilities \<Rightarrow> string
     \<Rightarrow> subgoal_spec list \<Rightarrow> string list \<Rightarrow> addr option \<Rightarrow> heap \<Rightarrow> 'w world
     \<Rightarrow> (error + addr option loop_exit) \<times> heap \<times> 'w world" where
  "plan_loop_h upd caps domain_file [] complete_plan current_state h w =
     (Inr (Completed complete_plan current_state), h, w)"
| "plan_loop_h upd caps domain_file (subgoal # rest) complete_plan current_state h w =
     (case solve_subgoal_with_retry caps domain_file subgoal (snapshot h current_state) 3 w of
        (Inl e, w1) \<Rightarrow> (Inl e, h, w1)
      | (Inr (success, subplan), w1) \<Rightarrow>
          if \<not> success then
            (Inr (Returned (False, [])), h,
             logger_error (''Failed to solve subgoal '' @ str_int (subgoal_id subgoal)) w1)
          else
            (case upd h current_state subplan of
               (Inl e, h1) \<Rightarrow> (Inl e, h1, w1)
             | (Inr new_state, h1) \<Rightarrow>
                 plan_loop_h upd caps domain_file rest (complete_plan @ subplan) new_state h1 w1))"

definition plan_with_h ::
  "(heap \<Rightarrow> addr option \<Rightarrow> string list \<Rightarrow> (error + addr option) \<times> heap) \<Rightarrow> 'w capabilities \<Rightarrow> string
     \<Rightarrow> string \<Rightarrow> addr \<Rightarrow> heap \<Rightarrow> 'w world \<Rightarrow> (error + bool \<times> string list) \<times> heap \<times> 'w world" where
  "plan_with_h upd caps natural_goal domain_file initial_state h w =
     (case high_level_planning caps natural_goal domain_file (snapshot_dict h initial_state) w of
        (Inl e, w1) \<Rightarrow> (Inl e, h, w1)
      | (Inr subgoals, w1) \<Rightarrow>
         (case dict_copy h initial_state of (current_state, h1) \<Rightarrow>
            (case plan_loop_h upd caps domain_file subgoals [] (Some current_state) h1 w1 of
               (Inl e, h2, w2) \<Rightarrow> (Inl e, h2, w2)
             | (Inr (Returned result), h2, w2) \<Rightarrow> (Inr result, h2, w2)
             | (Inr (Completed complete_plan final_state), h2, w2) \<Rightarrow> (Inr (True, complete_plan), h2, w2))))"

definition plan_h ::
  "'w capabilities \<Rightarrow> string \<Rightarrow> string \<Rightarrow> addr \<Rightarrow> heap \<Rightarrow> 'w world
     \<Rightarrow> (error + bool \<times> string list) \<times> heap \<times> 'w world" where
  "plan_h = plan_with_h update_state_after_plan_h"

definition plan_bw_h ::
  "'w capabilities \<Rightarrow> string \<Rightarrow> string \<Rightarrow> addr \<Rightarrow> heap \<Rightarrow> 'w world
     \<Rightarrow> (error + bool \<times> string list) \<times> heap \<times> 'w world" where
  "plan_bw_h = plan_with_h update_state_after_plan_bw_h"

text \<open>
  What a call leaves untouched: every object that exists in \<open>h\<close> is the same object in
  \<open>h'\<close>. Objects are allocated at increasing addresses, those of \<open>h\<close> lie below
  \<open>next_addr h\<close>.
\<close>

definition frame :: "heap \<Rightarrow> heap \<Rightarrow> bool" where
  "frame h h' \<longleftrightarrow> next_addr h \<le> next_addr h' \<and> (\<forall>a < next_addr h. cells h' a = cells h a)"

text \<open>The dict at \<open>d\<close> and the lists it names exist in \<open>h\<close>.\<close>

definition allocated :: "heap \<Rightarrow> addr \<Rightarrow> bool" where
  "allocated h d \<longleftrightarrow> d < next_addr h
     \<and> (\<forall>k a. ref_of (the_dict h d) k = Some a \<longrightarrow> a < next_addr h)"

text \<open>The initial state of the tower example as objects: the dict at address 0.\<close>

definition tower_heap :: heap where
  "tower_heap = \<lparr>cells = [
       0 \<mapsto> Dict_obj \<lparr>d_ontable = Some 1, d_clear = Some 2, d_holding = Some 3,
                        d_handempty = Some True, d_on = Some 4\<rparr>,
       1 \<mapsto> List_obj [Block ''a'', Block ''b'', Block ''c'', Block ''d'', Block ''e''],
       2 \<mapsto> List_obj [Block ''a'', Block ''b'', Block ''c'', Block ''d'', Block ''e''],
       3 \<mapsto> List_obj [],
       4 \<mapsto> List_obj []],
     next_addr = 5\<rparr>"

text \<open>
  For the proofs: \<open>writes_above n h h'\<close> says that \<open>h'\<close> has every object of \<open>h\<close> below
  address \<open>n\<close> as it was, and \<open>owned n h d\<close> that the dict at \<open>d\<close> and the lists it
  names all lie at or above \<open>n\<close>.
\<close>

definition writes_above :: "addr \<Rightarrow> heap \<Rightarrow> heap \<Rightarrow> bool" where
  "writes_above n h h' \<longleftrightarrow> next_addr h \<le> next_addr h' \<and> (\<forall>a < n. cells h' a = cells h a)"

definition owned :: "addr \<Rightarrow> heap \<Rightarrow> addr \<Rightarrow> bool" where
  "owned n h d \<longleftrightarrow> n \<le> d \<and> n \<le> next_addr h \<and> (\<forall>k a. ref_of (the_dict h d) k = Some a \<longrightarrow> n \<le> a)"

definition kept_owned :: "addr \<Rightarrow> addr \<Rightarrow> heap \<Rightarrow> heap \<Rightarrow> bool" where
  "kept_owned n d h h' \<longleftrightarrow> owned n h' d \<and> writes_above n h h'"

definition copy_inv :: "addr \<Rightarrow> heap \<Rightarrow> (addr \<times> addr) list \<times> heap \<times> dict \<Rightarrow> bool" where
  "copy_inv n h0 acc \<longleftrightarrow> (case acc of (memo, h, tgt) \<Rightarrow>
      n \<le> next_addr h \<and> (\<forall>x y. (x, y) \<in> set memo \<longrightarrow> n \<le> y) \<and> writes_above n h0 h
      \<and> (\<forall>k a. ref_of tgt k = Some a \<longrightarrow> n \<le> a))"

section \<open>Facts about the normalisation\<close>

lemma dropWhile_id: "xs \<noteq> [] \<Longrightarrow> \<not> P (hd xs) \<Longrightarrow> dropWhile P xs = xs"
  by (cases xs) auto

lemma replace_absent: "old \<notin> set s \<Longrightarrow> replace old new s = s"
  by (induction s) (auto simp: replace_def)

lemma split_scan_word:
  "\<forall>c \<in> set x. \<not> isspace c \<Longrightarrow> w \<noteq> [] \<or> x \<noteq> [] \<Longrightarrow> split_scan w x = [rev w @ x]"
  by (induction x arbitrary: w) auto

lemma split_scan_first_word:
  "\<forall>c \<in> set v. \<not> isspace c \<Longrightarrow> w \<noteq> [] \<or> v \<noteq> [] \<Longrightarrow> isspace c \<Longrightarrow>
     split_scan w (v @ c # rest) = (rev w @ v) # split_scan [] rest"
  by (induction v arbitrary: w) auto

lemma strip_clean_end:
  assumes "s \<noteq> []" "\<not> isspace (hd s)" "\<not> isspace (last s)"
  shows "strip s = s"
proof -
  have 1: "dropWhile isspace s = s" using assms by (simp add: dropWhile_id)
  have 2: "dropWhile isspace (rev s) = rev s" using assms by (simp add: dropWhile_id hd_rev)
  show ?thesis by (simp add: strip_def 1 2)
qed

lemma isspace_blank: "isspace CHR '' ''"
  by (simp add: isspace_def)

lemma parse_verb_operand:
  assumes "clean v" "clean x"
  shows "parse_parts (v @ '' '' @ x) = [v, x]"
proof -
  have x: "x \<noteq> []" "\<forall>c \<in> set x. \<not> isspace c" "CHR ''('' \<notin> set x" "CHR '')'' \<notin> set x" "CHR '','' \<notin> set x"
    using assms by (auto simp: clean_def)
  have v: "v \<noteq> []" "\<forall>c \<in> set v. \<not> isspace c" "CHR ''('' \<notin> set v" "CHR '')'' \<notin> set v" "CHR '','' \<notin> set v"
    using assms by (auto simp: clean_def)
  let ?s = "v @ '' '' @ x"
  have "hd ?s = hd v" using v by simp
  moreover have "last ?s = last x" using x by simp
  ultimately have st: "strip ?s = ?s"
    using x v by (intro strip_clean_end) auto
  have r: "replace CHR '','' '' '' (replace CHR '')'' [] (replace CHR ''('' '' '' ?s)) = ?s"
    using x v by (simp add: replace_absent)
  have "split_scan [] (v @ CHR '' '' # x) = (rev [] @ v) # split_scan [] x"
    using v isspace_blank by (intro split_scan_first_word) auto
  then have sp: "split ?s = [v, x]"
    using x by (simp add: split_def split_scan_word)
  show ?thesis unfolding parse_parts_def st r by (rule sp)
qed

lemma clean_pickup: "clean ''pickup''"
  by (simp add: clean_def isspace_def)

lemma clean_putdown: "clean ''putdown''"
  by (simp add: clean_def isspace_def)

lemma lower_pickup: "lower ''pickup'' = ''pickup''"
  by (simp add: lower_def lower_char_def)

lemma lower_putdown: "lower ''putdown'' = ''putdown''"
  by (simp add: lower_def lower_char_def)

lemma apply_action_pickup:
  "clean x \<Longrightarrow> apply_action (Some st) (''pickup '' @ x) = Inr (Some (apply_pickup st x))"
  using parse_verb_operand[OF clean_pickup, of x]
  by (simp add: apply_action_def on_dict_def lower_pickup)

lemma apply_action_putdown:
  "clean x \<Longrightarrow> apply_action (Some st) (''putdown '' @ x) = Inr (Some (apply_putdown st x))"
  using parse_verb_operand[OF clean_putdown, of x]
  by (simp add: apply_action_def on_dict_def lower_putdown)

section \<open>Tokens that the loop skips\<close>

lemma apply_action_short:
  "length (parse_parts action_str) < 2 \<Longrightarrow> apply_action new_state action_str = Inr new_state"
  by (simp add: apply_action_def)

lemma simulate_append:
  "simulate s (xs @ ys) = (case simulate s xs of Inl e \<Rightarrow> Inl e | Inr s' \<Rightarrow> simulate s' ys)"
  by (induction xs arbitrary: s) (auto split: sum.splits)

lemma simulate_skip_short:
  "length (parse_parts t) < 2 \<Longrightarrow> simulate s (xs @ t # ys) = simulate s (xs @ ys)"
  by (simp add: simulate_append apply_action_short split: sum.splits)

lemma apply_action_unknown_verb:
  "lower (parse_parts t ! 0) \<notin> {''pickup'', ''putdown'', ''stack'', ''unstack''} \<Longrightarrow>
     apply_action new_state t = Inr new_state"
  by (simp add: apply_action_def Let_def)

section \<open>Facts about the validator\<close>

lemma find_None_iff2: "(find P xs = None) = (\<forall>x \<in> set xs. \<not> P x)"
  by (induction xs) auto

lemma find_SomeD: "find P xs = Some x \<Longrightarrow> x \<in> set xs \<and> P x"
  by (induction xs) (auto split: if_splits)

lemma validate_ok_iff:
  "fst (validate_blocks_world_state st) \<longleftrightarrow>
     (\<forall>block \<in> set (get_list (ontable st)) \<union> set (get_list (holding st))
          \<union> fst ` set (get_list (on st)) \<union> snd ` set (get_list (on st)). place_count st block = 1)
   \<and> (\<forall>block \<in> set (get_list (ontable st)).
          block \<notin> snd ` set (get_list (on st)) \<longrightarrow> block \<in> set (get_list (clear st)))
   \<and> (\<forall>block \<in> fst ` set (get_list (on st)).
          block \<notin> snd ` set (get_list (on st)) \<longrightarrow> block \<in> set (get_list (clear st)))"
  unfolding validate_blocks_world_state_def Let_def
  by (auto split: option.splits simp: find_None_iff2 dest!: find_SomeD)


section \<open>Facts about the action effects\<close>

lemma pickup_fields:
  "get_list (ontable (apply_pickup st b)) = remove1 b (get_list (ontable st))"
  "get_list (clear (apply_pickup st b)) = remove1 b (get_list (clear st))"
  "get_list (holding (apply_pickup st b)) = [b]"
  "on (apply_pickup st b) = on st"
  "handempty (apply_pickup st b) = map_option (\<lambda>_. False) (handempty st)"
  by (auto simp: apply_pickup_def get_list_def Let_def remove1_idem split: option.splits)

lemma putdown_fields:
  "get_list (ontable (apply_putdown st b)) = get_list (ontable st) @ [b]"
  "get_list (clear (apply_putdown st b)) = get_list (clear st) @ [b]"
  "get_list (holding (apply_putdown st b)) = remove1 b (get_list (holding st))"
  "on (apply_putdown st b) = on st"
  "handempty (apply_putdown st b) = Some True"
  by (auto simp: apply_putdown_def get_list_def Let_def remove1_idem split: option.splits)

lemma stack_fields:
  "get_list (ontable (apply_stack st a b)) = get_list (ontable st)"
  "get_list (clear (apply_stack st a b)) = remove1 b (get_list (clear st)) @ [a]"
  "get_list (holding (apply_stack st a b)) = remove1 a (get_list (holding st))"
  "get_list (on (apply_stack st a b)) = get_list (on st) @ [(a, b)]"
  "handempty (apply_stack st a b) = Some True"
  by (auto simp: apply_stack_def get_list_def Let_def remove1_idem split: option.splits)

lemma unstack_fields:
  "get_list (ontable (apply_unstack st a b)) = get_list (ontable st)"
  "get_list (clear (apply_unstack st a b)) = remove1 a (get_list (clear st)) @ [b]"
  "get_list (holding (apply_unstack st a b)) = [a]"
  "get_list (on (apply_unstack st a b)) = filter (\<lambda>(x, y). \<not> (x = a \<and> y = b)) (get_list (on st))"
  "handempty (apply_unstack st a b) = Some False"
  by (auto simp: apply_unstack_def get_list_def Let_def remove1_idem split: option.splits)

lemma held_single: "length xs \<le> 1 \<Longrightarrow> b \<in> set xs \<Longrightarrow> xs = [b]"
  by (cases xs) auto

lemma pickup_consistent:
  assumes "consistent st" "pickup_pre st b"
  shows "consistent (apply_pickup st b)"
proof -
  have op: "\<forall>x \<in> referenced st. place_count st x = 1" and wf: "well_formed st"
    using assms(1) by (auto simp: consistent_def one_place_def)
  have h: "get_list (holding st) = []" using wf assms(2) by (simp add: well_formed_def pickup_pre_def)
  have d: "distinct (get_list (ontable st))" using wf by (simp add: well_formed_def)
  have bref: "b \<in> referenced st" using assms(2) by (simp add: pickup_pre_def referenced_def)
  have b1: "place_count st b = 1" using op bref by blast
  have bt: "b \<notin> fst ` set (get_list (on st))"
    using b1 assms(2) by (auto simp: place_count_def pickup_pre_def split: if_splits)
  have sub: "referenced (apply_pickup st b) \<subseteq> referenced st"
    using bref by (auto simp: referenced_def pickup_fields dest: notin_set_remove1)
  have "place_count (apply_pickup st b) x = 1" if "x \<in> referenced (apply_pickup st b)" for x
  proof (cases "x = b")
    case True
    then show ?thesis using d bt by (simp add: place_count_def pickup_fields)
  next
    case False
    have "place_count st x = 1" using op sub that by blast
    then show ?thesis using False h by (simp add: place_count_def pickup_fields)
  qed
  moreover have "well_formed (apply_pickup st b)"
    using wf by (auto simp: well_formed_def pickup_fields)
  ultimately show ?thesis by (simp add: consistent_def one_place_def)
qed


lemma putdown_consistent:
  assumes "consistent st" "putdown_pre st b"
  shows "consistent (apply_putdown st b)"
proof -
  have op: "\<forall>x \<in> referenced st. place_count st x = 1" and wf: "well_formed st"
    using assms(1) by (auto simp: consistent_def one_place_def)
  have h: "get_list (holding st) = [b]"
    using wf assms(2) by (simp add: well_formed_def putdown_pre_def held_single)
  have d: "distinct (get_list (ontable st))" using wf by (simp add: well_formed_def)
  have bref: "b \<in> referenced st" using h by (simp add: referenced_def)
  have b1: "place_count st b = 1" using op bref by blast
  have bt: "b \<notin> fst ` set (get_list (on st))" "b \<notin> set (get_list (ontable st))"
    using b1 h by (auto simp: place_count_def split: if_splits)
  have sub: "referenced (apply_putdown st b) \<subseteq> referenced st"
    using bref by (auto simp: referenced_def putdown_fields dest: notin_set_remove1)
  have "place_count (apply_putdown st b) x = 1" if "x \<in> referenced (apply_putdown st b)" for x
  proof (cases "x = b")
    case True
    then show ?thesis using bt h by (simp add: place_count_def putdown_fields)
  next
    case False
    have "place_count st x = 1" using op sub that by blast
    then show ?thesis using False h by (simp add: place_count_def putdown_fields)
  qed
  moreover have "well_formed (apply_putdown st b)"
    using wf bt h by (auto simp: well_formed_def putdown_fields)
  ultimately show ?thesis by (simp add: consistent_def one_place_def)
qed

lemma stack_consistent:
  assumes "consistent st" "stack_pre st a b"
  shows "consistent (apply_stack st a b)"
proof -
  have op: "\<forall>x \<in> referenced st. place_count st x = 1" and wf: "well_formed st"
    using assms(1) by (auto simp: consistent_def one_place_def)
  have h: "get_list (holding st) = [a]"
    using wf assms(2) by (simp add: well_formed_def stack_pre_def held_single)
  have aref: "a \<in> referenced st" using h by (simp add: referenced_def)
  have bref: "b \<in> referenced st" using assms(2) by (simp add: referenced_def stack_pre_def)
  have a1: "place_count st a = 1" using op aref by blast
  have at: "a \<notin> fst ` set (get_list (on st))" "a \<notin> set (get_list (ontable st))"
    using a1 h by (auto simp: place_count_def split: if_splits)
  have sub: "referenced (apply_stack st a b) \<subseteq> referenced st"
    using aref bref by (auto simp: referenced_def stack_fields dest: notin_set_remove1)
  have "place_count (apply_stack st a b) x = 1" if "x \<in> referenced (apply_stack st a b)" for x
  proof (cases "x = a")
    case True
    then show ?thesis using at h by (simp add: place_count_def stack_fields)
  next
    case False
    have "place_count st x = 1" using op sub that by blast
    then show ?thesis using False h by (simp add: place_count_def stack_fields)
  qed
  moreover have "well_formed (apply_stack st a b)"
    using wf at h by (auto simp: well_formed_def stack_fields)
  ultimately show ?thesis by (simp add: consistent_def one_place_def)
qed

lemma top_unique:
  assumes "distinct (map fst ps)" and "(a, b) \<in> set ps"
  shows "a \<notin> fst ` set (filter (\<lambda>(x, y). \<not> (x = a \<and> y = b)) ps)"
proof
  assume "a \<in> fst ` set (filter (\<lambda>(x, y). \<not> (x = a \<and> y = b)) ps)"
  then obtain y where y: "(a, y) \<in> set ps" "y \<noteq> b" by auto
  have "y = b" using eq_key_imp_eq_value[OF assms(1) y(1) assms(2)] .
  then show False using y(2) by simp
qed

lemma top_kept:
  assumes "x \<noteq> a"
  shows "x \<in> fst ` set (filter (\<lambda>(x, y). \<not> (x = a \<and> y = b)) ps) \<longleftrightarrow> x \<in> fst ` set ps"
proof
  assume "x \<in> fst ` set (filter (\<lambda>(x, y). \<not> (x = a \<and> y = b)) ps)"
  then show "x \<in> fst ` set ps" by auto
next
  assume "x \<in> fst ` set ps"
  then obtain y where "(x, y) \<in> set ps" by auto
  then have "(x, y) \<in> set (filter (\<lambda>(x, y). \<not> (x = a \<and> y = b)) ps)" using assms by simp
  then show "x \<in> fst ` set (filter (\<lambda>(x, y). \<not> (x = a \<and> y = b)) ps)" by force
qed

lemma distinct_tops_filter: "distinct (map fst ps) \<Longrightarrow> distinct (map fst (filter P ps))"
  by (simp add: distinct_map_filter)

lemma unstack_consistent:
  assumes "consistent st" "unstack_pre st a b"
  shows "consistent (apply_unstack st a b)"
proof -
  have op: "\<forall>x \<in> referenced st. place_count st x = 1" and wf: "well_formed st"
    using assms(1) by (auto simp: consistent_def one_place_def)
  have h: "get_list (holding st) = []" using wf assms(2) by (simp add: well_formed_def unstack_pre_def)
  have d: "distinct (map fst (get_list (on st)))" using wf by (simp add: well_formed_def)
  have ab: "(a, b) \<in> set (get_list (on st))" using assms(2) by (simp add: unstack_pre_def)
  have aref: "a \<in> referenced st" using assms(2) by (simp add: referenced_def unstack_pre_def)
  have bref: "b \<in> referenced st" using ab by (force simp: referenced_def)
  have a1: "place_count st a = 1" using op aref by blast
  have atop: "a \<in> fst ` set (get_list (on st))" using ab by force
  have at: "a \<notin> set (get_list (ontable st))"
    using a1 atop by (auto simp: place_count_def split: if_splits)
  have sub: "referenced (apply_unstack st a b) \<subseteq> referenced st"
    using aref bref by (auto simp: referenced_def unstack_fields dest: notin_set_remove1)
  have "place_count (apply_unstack st a b) x = 1" if "x \<in> referenced (apply_unstack st a b)" for x
  proof (cases "x = a")
    case True
    then show ?thesis using at top_unique[OF d ab] by (simp add: place_count_def unstack_fields)
  next
    case False
    have "place_count st x = 1" using op sub that by blast
    moreover have "x \<in> fst ` set (get_list (on (apply_unstack st a b))) \<longleftrightarrow> x \<in> fst ` set (get_list (on st))"
      unfolding unstack_fields using False by (rule top_kept)
    ultimately show ?thesis
      using False h by (simp add: place_count_def unstack_fields(1,3))
  qed
  moreover have "well_formed (apply_unstack st a b)"
    using wf d by (auto simp: well_formed_def unstack_fields distinct_tops_filter)
  ultimately show ?thesis by (simp add: consistent_def one_place_def)
qed



lemma legal_token_step:
  assumes "consistent st" "legal_token st t"
  shows "\<exists>st'. apply_action (Some st) t = Inr (Some st') \<and> consistent st'"
  using assms
  by (auto simp: legal_token_def apply_action_def on_dict_def Let_def
      pickup_consistent putdown_consistent stack_consistent unstack_consistent split: if_splits)

lemma legal_plan_consistent:
  "consistent st \<Longrightarrow> legal_plan st tokens \<Longrightarrow>
     \<exists>st'. simulate (Some st) tokens = Inr (Some st') \<and> consistent st'"
proof (induction tokens arbitrary: st)
  case Nil
  then show ?case by simp
next
  case (Cons t tokens)
  from Cons.prems have lt: "legal_token st t" by simp
  obtain st1 where s1: "apply_action (Some st) t = Inr (Some st1)" and c1: "consistent st1"
    using legal_token_step[OF Cons.prems(1) lt] by blast
  have "legal_plan st1 tokens" using Cons.prems(2) s1 by simp
  then obtain st' where "simulate (Some st1) tokens = Inr (Some st')" "consistent st'"
    using Cons.IH[OF c1] by blast
  then show ?case using s1 by simp
qed

lemma tower_initial_consistent: "consistent tower_initial"
  by (simp add: consistent_def one_place_def well_formed_def referenced_def place_count_def
      tower_initial_def get_list_def)

lemma tower_plan_legal: "legal_plan tower_initial tower_plan"
  by code_simp

section \<open>Facts about the coordinator\<close>

lemma py_range_3: "py_range 3 = [0, 1, 2]"
  by code_simp

lemma str_int_1: "str_int 1 = ''1''"
  by code_simp

lemma str_int_2: "str_int 2 = ''2''"
  by code_simp

lemma call_solve_fails:
  assumes "always_fails caps"
  shows "\<exists>p w1. call (Solve_call d sg st) (planner_solve_subgoal caps d sg st) w = (Inr (False, p), w1)
            \<and> events w1 = events w @ [Solve_call d sg st]"
proof -
  obtain p x' where "planner_solve_subgoal caps d sg st (ext w) = (Inr (False, p), x')"
    using assms unfolding always_fails_def by blast
  then show ?thesis by (simp add: call_def)
qed

lemma call_adapt_returns:
  assumes "adapt_returns caps"
  shows "\<exists>sg' w1. call (Adapt_call sg e) (llm_adapt_plan caps sg e) w = (Inr sg', w1)
            \<and> events w1 = events w @ [Adapt_call sg e]"
proof -
  obtain sg' x' where "llm_adapt_plan caps sg e (ext w) = (Inr sg', x')"
    using assms unfolding adapt_returns_def by blast
  then show ?thesis by (simp add: call_def)
qed

lemma failing_caps_always_fails: "always_fails failing_caps"
  by (simp add: always_fails_def failing_caps_def example_caps_def)

lemma failing_caps_adapt_returns: "adapt_returns failing_caps"
  by (simp add: adapt_returns_def failing_caps_def example_caps_def)

text \<open>The loop over a list of subgoals that starts with subgoals that all succeed.\<close>

lemma plan_loop_append:
  "plan_loop upd caps domain_file pre complete_plan current_state w
       = (Inr (Completed complete_plan' current_state'), w') \<Longrightarrow>
   plan_loop upd caps domain_file (pre @ rest) complete_plan current_state w
       = plan_loop upd caps domain_file rest complete_plan' current_state' w'"
proof (induction pre arbitrary: complete_plan current_state w)
  case Nil
  then show ?case by simp
next
  case (Cons sg pre)
  then show ?case
    by (auto split: prod.splits sum.splits if_splits)
qed

lemma plan_with_failure:
  assumes "high_level_planning caps natural_goal domain_file initial_state w = (Inr (pre @ sg # post), w0)"
    and "plan_loop upd caps domain_file pre [] (Some initial_state) w0
           = (Inr (Completed complete_plan current_state), w1)"
    and "solve_subgoal_with_retry caps domain_file sg current_state 3 w1 = (Inr (False, subplan), w2)"
  shows "plan_with upd caps natural_goal domain_file initial_state w
           = (Inr (False, []), logger_error (''Failed to solve subgoal '' @ str_int (subgoal_id sg)) w2)"
proof -
  have "plan_loop upd caps domain_file (pre @ sg # post) [] (Some initial_state) w0
          = plan_loop upd caps domain_file (sg # post) complete_plan current_state w1"
    using assms(2) by (rule plan_loop_append)
  also have "\<dots> = (Inr (Returned (False, [])),
      logger_error (''Failed to solve subgoal '' @ str_int (subgoal_id sg)) w2)"
    using assms(3) by simp
  finally show ?thesis
    using assms(1) by (simp add: plan_with_def)
qed

section \<open>Facts about the store\<close>

lemma writes_above_refl: "writes_above n h h"
  by (simp add: writes_above_def)

lemma writes_above_trans: "writes_above n h h1 \<Longrightarrow> writes_above n h1 h2 \<Longrightarrow> writes_above n h h2"
  by (simp add: writes_above_def)

lemma kept_owned_trans: "kept_owned n d h h1 \<Longrightarrow> kept_owned n d h1 h2 \<Longrightarrow> kept_owned n d h h2"
  using writes_above_trans by (auto simp: kept_owned_def)

lemma the_dict_store_list: "the_dict (store h a (List_obj xs)) d = (if a = d then empty_dict else the_dict h d)"
  by (simp add: the_dict_def store_def)

lemma the_dict_store_dict: "the_dict (store h a (Dict_obj f)) d = (if a = d then f else the_dict h d)"
  by (simp add: the_dict_def store_def)

lemma ref_of_empty: "ref_of empty_dict k = None"
  by (cases k) (simp_all add: empty_dict_def)

lemma ref_of_bind: "ref_of (bind_ref f k a) k' = (if k' = k then Some a else ref_of f k')"
  by (cases k; cases k') simp_all

lemma ref_of_flag: "ref_of (f\<lparr>d_handempty := b\<rparr>) k = ref_of f k"
  by (cases k) simp_all

lemma next_addr_store: "next_addr (store h a obj) = next_addr h"
  by (simp add: store_def)

lemma store_above: "n \<le> a \<Longrightarrow> writes_above n h (store h a obj)"
  by (simp add: writes_above_def store_def)

lemma store_list_private: "owned n h d \<Longrightarrow> owned n (store h a (List_obj xs)) d"
  by (simp add: owned_def the_dict_store_list ref_of_empty next_addr_store)

lemma store_dict_private:
  "owned n h d \<Longrightarrow> (\<forall>k a. ref_of f k = Some a \<longrightarrow> n \<le> a) \<Longrightarrow> owned n (store h d (Dict_obj f)) d"
  by (simp add: owned_def the_dict_store_dict next_addr_store)

lemma kept_owned_refl: "owned n h d \<Longrightarrow> kept_owned n d h h"
  by (simp add: kept_owned_def writes_above_refl)

lemma owned_ref: "owned n h d \<Longrightarrow> ref_of (the_dict h d) k = Some a \<Longrightarrow> n \<le> a"
  by (simp add: owned_def)

lemma store_list_kept:
  assumes "owned n h d" and "ref_of (the_dict h d) k = Some a"
  shows "kept_owned n d h (store h a (List_obj xs))"
proof -
  have "n \<le> a" using assms by (rule owned_ref)
  then have "writes_above n h (store h a (List_obj xs))" by (rule store_above)
  then show ?thesis using store_list_private[OF assms(1)] by (simp add: kept_owned_def)
qed

lemma remove_if_listed_private:
  assumes "owned n h d"
  shows "kept_owned n d h (remove_if_listed h d k x)"
proof (cases "ref_of (the_dict h d) k")
  case None
  then show ?thesis using assms by (simp add: remove_if_listed_def kept_owned_refl)
next
  case (Some a)
  then show ?thesis
    using assms store_list_kept[OF assms Some] by (simp add: remove_if_listed_def kept_owned_refl)
qed

lemma the_dict_alloc_list:
  "alloc h (List_obj xs) = (a, h1) \<Longrightarrow> the_dict h1 d = (if d = next_addr h then empty_dict else the_dict h d)"
  by (auto simp: alloc_def the_dict_def)

lemma alloc_above: "alloc h obj = (a, h1) \<Longrightarrow> n \<le> next_addr h \<Longrightarrow> writes_above n h h1 \<and> n \<le> a"
  by (auto simp: alloc_def writes_above_def)

lemma alloc_list_owned:
  assumes "owned n h d" and "alloc h (List_obj xs) = (a, h1)"
  shows "owned n h1 d \<and> writes_above n h h1 \<and> n \<le> a"
proof -
  have n: "n \<le> next_addr h" "n \<le> d" using assms(1) by (simp_all add: owned_def)
  have "next_addr h1 = Suc (next_addr h)" using assms(2) by (auto simp: alloc_def)
  then have "owned n h1 d"
    using assms(1) n by (simp add: owned_def the_dict_alloc_list[OF assms(2)] ref_of_empty)
  then show ?thesis using alloc_above[OF assms(2) n(1)] by simp
qed

lemma assign_list_owned:
  assumes "owned n h d"
  shows "kept_owned n d h (assign_list h d k xs)"
proof -
  obtain a h1 where al: "alloc h (List_obj xs) = (a, h1)" by (cases "alloc h (List_obj xs)")
  have 1: "owned n h1 d" "writes_above n h h1" "n \<le> a"
    using alloc_list_owned[OF assms al] by simp_all
  have "\<forall>k' a'. ref_of (bind_ref (the_dict h1 d) k a) k' = Some a' \<longrightarrow> n \<le> a'"
    using 1 by (auto simp: ref_of_bind owned_def)
  then have "owned n (store h1 d (Dict_obj (bind_ref (the_dict h1 d) k a))) d"
    using 1(1) by (rule store_dict_private[rotated])
  moreover have "writes_above n h1 (store h1 d (Dict_obj (bind_ref (the_dict h1 d) k a)))"
    using 1(1) by (intro store_above) (simp add: owned_def)
  ultimately show ?thesis
    using 1(2) al by (auto simp: kept_owned_def assign_list_def intro: writes_above_trans)
qed

lemma ensure_list_owned:
  assumes "owned n h d"
  shows "kept_owned n d h (ensure_list h d k)"
proof (cases "ref_of (the_dict h d) k")
  case None
  then show ?thesis using assign_list_owned[OF assms] by (simp add: ensure_list_def)
next
  case (Some a)
  then show ?thesis using assms by (simp add: ensure_list_def kept_owned_refl)
qed

lemma append_item_owned:
  assumes "owned n h d"
  shows "kept_owned n d h (append_item h d k x)"
proof (cases "ref_of (the_dict h d) k")
  case None
  then show ?thesis using assms by (simp add: append_item_def kept_owned_refl)
next
  case (Some a)
  then show ?thesis using store_list_kept[OF assms Some] by (simp add: append_item_def)
qed

lemma assign_flag_owned:
  assumes "owned n h d"
  shows "kept_owned n d h (assign_flag h d b)"
proof -
  have "\<forall>k a. ref_of ((the_dict h d)\<lparr>d_handempty := Some b\<rparr>) k = Some a \<longrightarrow> n \<le> a"
    using assms by (simp add: ref_of_flag owned_def)
  then have "owned n (assign_flag h d b) d"
    unfolding assign_flag_def using assms by (rule store_dict_private[rotated])
  moreover have "writes_above n h (assign_flag h d b)"
    unfolding assign_flag_def using assms by (intro store_above) (simp add: owned_def)
  ultimately show ?thesis by (simp add: kept_owned_def)
qed

lemma kept_owned_then:
  "kept_owned n d h h1 \<Longrightarrow> (owned n h1 d \<Longrightarrow> kept_owned n d h1 h2) \<Longrightarrow> kept_owned n d h h2"
  using kept_owned_trans by (auto simp: kept_owned_def)

lemma apply_pickup_h_owned:
  assumes "owned n h d"
  shows "kept_owned n d h (apply_pickup_h h d block)"
proof -
  let ?h1 = "remove_if_listed h d Ontable (Block block)"
  let ?h2 = "remove_if_listed ?h1 d Clear (Block block)"
  let ?h3 = "assign_list ?h2 d Holding [Block block]"
  have 1: "kept_owned n d h ?h1" using assms by (rule remove_if_listed_private)
  have 2: "kept_owned n d h ?h2"
    using 1 by (rule kept_owned_then) (rule remove_if_listed_private)
  have 3: "kept_owned n d h ?h3"
    using 2 by (rule kept_owned_then) (rule assign_list_owned)
  have 4: "kept_owned n d h (assign_flag ?h3 d False)"
    using 3 by (rule kept_owned_then) (rule assign_flag_owned)
  show ?thesis
    using 3 4 by (simp add: apply_pickup_h_def Let_def split: option.splits)
qed

lemma apply_putdown_h_owned:
  assumes "owned n h d"
  shows "kept_owned n d h (apply_putdown_h h d block)"
proof -
  let ?h1 = "remove_if_listed h d Holding (Block block)"
  let ?h2 = "ensure_list ?h1 d Ontable"
  let ?h3 = "append_item ?h2 d Ontable (Block block)"
  let ?h4 = "ensure_list ?h3 d Clear"
  let ?h5 = "append_item ?h4 d Clear (Block block)"
  have 1: "kept_owned n d h ?h1" using assms by (rule remove_if_listed_private)
  have 2: "kept_owned n d h ?h2" using 1 by (rule kept_owned_then) (rule ensure_list_owned)
  have 3: "kept_owned n d h ?h3" using 2 by (rule kept_owned_then) (rule append_item_owned)
  have 4: "kept_owned n d h ?h4" using 3 by (rule kept_owned_then) (rule ensure_list_owned)
  have 5: "kept_owned n d h ?h5" using 4 by (rule kept_owned_then) (rule append_item_owned)
  have "kept_owned n d h (assign_flag ?h5 d True)"
    using 5 by (rule kept_owned_then) (rule assign_flag_owned)
  then show ?thesis by (simp add: apply_putdown_h_def Let_def)
qed

lemma apply_stack_h_owned:
  assumes "owned n h d"
  shows "kept_owned n d h (apply_stack_h h d block_a block_b)"
proof -
  let ?h1 = "remove_if_listed h d Holding (Block block_a)"
  let ?h2 = "remove_if_listed ?h1 d Clear (Block block_b)"
  let ?h3 = "ensure_list ?h2 d On"
  let ?h4 = "append_item ?h3 d On (On_pair block_a block_b)"
  let ?h5 = "ensure_list ?h4 d Clear"
  let ?h6 = "append_item ?h5 d Clear (Block block_a)"
  have 1: "kept_owned n d h ?h1" using assms by (rule remove_if_listed_private)
  have 2: "kept_owned n d h ?h2" using 1 by (rule kept_owned_then) (rule remove_if_listed_private)
  have 3: "kept_owned n d h ?h3" using 2 by (rule kept_owned_then) (rule ensure_list_owned)
  have 4: "kept_owned n d h ?h4" using 3 by (rule kept_owned_then) (rule append_item_owned)
  have 5: "kept_owned n d h ?h5" using 4 by (rule kept_owned_then) (rule ensure_list_owned)
  have 6: "kept_owned n d h ?h6" using 5 by (rule kept_owned_then) (rule append_item_owned)
  have "kept_owned n d h (assign_flag ?h6 d True)"
    using 6 by (rule kept_owned_then) (rule assign_flag_owned)
  then show ?thesis by (simp add: apply_stack_h_def Let_def)
qed

lemma apply_unstack_h_owned:
  assumes "owned n h d"
  shows "kept_owned n d h (apply_unstack_h h d block_a block_b)"
proof -
  let ?h1 = "case ref_of (the_dict h d) On of
               Some a \<Rightarrow> assign_list h d On (filter (\<lambda>i. i \<noteq> On_pair block_a block_b) (the_list h a))
             | None \<Rightarrow> h"
  let ?h2 = "remove_if_listed ?h1 d Clear (Block block_a)"
  let ?h3 = "ensure_list ?h2 d Clear"
  let ?h4 = "append_item ?h3 d Clear (Block block_b)"
  let ?h5 = "assign_list ?h4 d Holding [Block block_a]"
  have 1: "kept_owned n d h ?h1"
    using assms by (auto simp: kept_owned_refl assign_list_owned split: option.splits)
  have 2: "kept_owned n d h ?h2" using 1 by (rule kept_owned_then) (rule remove_if_listed_private)
  have 3: "kept_owned n d h ?h3" using 2 by (rule kept_owned_then) (rule ensure_list_owned)
  have 4: "kept_owned n d h ?h4" using 3 by (rule kept_owned_then) (rule append_item_owned)
  have 5: "kept_owned n d h ?h5" using 4 by (rule kept_owned_then) (rule assign_list_owned)
  have "kept_owned n d h (assign_flag ?h5 d False)"
    using 5 by (rule kept_owned_then) (rule assign_flag_owned)
  then show ?thesis by (simp add: apply_unstack_h_def Let_def)
qed

lemma apply_action_h_owned:
  assumes "owned n h d"
  shows "kept_owned n d h (snd (apply_action_h h (Some d) t))"
  using assms
  by (simp add: apply_action_h_def on_dict_h_def Let_def kept_owned_refl
      apply_pickup_h_owned apply_putdown_h_owned apply_stack_h_owned apply_unstack_h_owned)

lemma simulate_h_owned:
  "owned n h d \<Longrightarrow> kept_owned n d h (snd (simulate_h h (Some d) tokens))"
proof (induction tokens arbitrary: h)
  case Nil
  then show ?case by (simp add: kept_owned_refl)
next
  case (Cons t tokens)
  obtain e h1 where s: "apply_action_h h (Some d) t = (e, h1)" by (cases "apply_action_h h (Some d) t")
  have k: "kept_owned n d h h1" using apply_action_h_owned[OF Cons.prems, of t] s by simp
  show ?case
  proof (cases e)
    case None
    have "kept_owned n d h1 (snd (simulate_h h1 (Some d) tokens))"
      using Cons.IH k by (simp add: kept_owned_def)
    then show ?thesis using s None k kept_owned_trans by auto
  next
    case (Some err)
    then show ?thesis using s k by simp
  qed
qed

lemma simulate_h_none: "snd (simulate_h h None tokens) = h"
proof (induction tokens)
  case Nil
  then show ?case by simp
next
  case (Cons t tokens)
  have "snd (apply_action_h h None t) = h"
    by (simp add: apply_action_h_def on_dict_h_def Let_def)
  then show ?case using Cons by (cases "apply_action_h h None t") (auto split: option.splits)
qed

lemma copy_list_above:
  assumes "n \<le> next_addr h" and "\<forall>x y. (x, y) \<in> set memo \<longrightarrow> n \<le> y"
    and "copy_list memo h a = (a', memo', h')"
  shows "n \<le> a' \<and> (\<forall>x y. (x, y) \<in> set memo' \<longrightarrow> n \<le> y) \<and> writes_above n h h' \<and> n \<le> next_addr h'"
proof (cases "map_of memo a")
  case None
  obtain b h1 where al: "alloc h (List_obj (the_list h a)) = (b, h1)"
    by (cases "alloc h (List_obj (the_list h a))")
  have r: "a' = b" "memo' = (a, b) # memo" "h' = h1"
    using assms(3) None al by (auto simp: copy_list_def)
  have "writes_above n h h1 \<and> n \<le> b" using al assms(1) by (rule alloc_above)
  moreover have "n \<le> next_addr h1" using al assms(1) by (auto simp: alloc_def)
  ultimately show ?thesis using r assms(2) by auto
next
  case (Some b)
  then have r: "a' = b" "memo' = memo" "h' = h" using assms(3) by (simp_all add: copy_list_def)
  have "(a, b) \<in> set memo" using Some by (rule map_of_SomeD)
  then have "n \<le> b" using assms(2) by blast
  then show ?thesis using r assms(1,2) by (simp add: writes_above_refl)
qed

lemma copy_key_inv:
  assumes "copy_inv n h0 acc"
  shows "copy_inv n h0 (copy_key src k acc)"
proof -
  obtain memo h tgt where acc: "acc = (memo, h, tgt)" by (cases acc)
  have i: "n \<le> next_addr h" "\<forall>x y. (x, y) \<in> set memo \<longrightarrow> n \<le> y" "writes_above n h0 h"
    "\<forall>k a. ref_of tgt k = Some a \<longrightarrow> n \<le> a"
    using assms acc by (simp_all add: copy_inv_def)
  show ?thesis
  proof (cases "ref_of src k")
    case None
    then show ?thesis using assms acc by (simp add: copy_key_def)
  next
    case (Some a)
    obtain a' memo' h' where c: "copy_list memo h a = (a', memo', h')"
      by (cases "copy_list memo h a")
    have l: "n \<le> a'" "\<forall>x y. (x, y) \<in> set memo' \<longrightarrow> n \<le> y" "writes_above n h h'" "n \<le> next_addr h'"
      using copy_list_above[OF i(1) i(2) c] by simp_all
    have w: "writes_above n h0 h'" using i(3) l(3) by (rule writes_above_trans)
    have "\<forall>k' b. ref_of (bind_ref tgt k a') k' = Some b \<longrightarrow> n \<le> b"
      using i(4) l(1) by (auto simp: ref_of_bind)
    then show ?thesis using acc Some c l w by (simp add: copy_key_def copy_inv_def)
  qed
qed

lemma fold_copy_key_inv: "copy_inv n h0 acc \<Longrightarrow> copy_inv n h0 (fold (copy_key src) ks acc)"
  by (induction ks arbitrary: acc) (simp_all add: copy_key_inv)

lemma deepcopy_owned:
  assumes "deepcopy h (Some d) = (v, h')"
  shows "\<exists>d'. v = Some d' \<and> kept_owned (next_addr h) d' h h'"
proof -
  let ?n = "next_addr h"
  let ?src = "the_dict h d"
  obtain d' h0 where al: "alloc h (Dict_obj empty_dict) = (d', h0)"
    by (cases "alloc h (Dict_obj empty_dict)")
  have d': "d' = ?n" and n0: "next_addr h0 = Suc ?n" using al by (auto simp: alloc_def)
  have w0: "writes_above ?n h h0" using alloc_above[OF al, of ?n] by simp
  let ?start = "([], h0, empty_dict\<lparr>d_handempty := d_handempty ?src\<rparr>)"
  have "copy_inv ?n h0 ?start"
    by (simp add: copy_inv_def n0 writes_above_refl ref_of_flag ref_of_empty)
  then have inv: "copy_inv ?n h0 (fold (copy_key ?src) [Ontable, Clear, Holding, On] ?start)"
    by (rule fold_copy_key_inv)
  obtain memo h1 tgt where f: "fold (copy_key ?src) [Ontable, Clear, Holding, On] ?start = (memo, h1, tgt)"
    by (cases "fold (copy_key ?src) [Ontable, Clear, Holding, On] ?start")
  have i: "?n \<le> next_addr h1" "writes_above ?n h0 h1" "\<forall>k a. ref_of tgt k = Some a \<longrightarrow> ?n \<le> a"
    using inv f by (simp_all add: copy_inv_def)
  have res: "v = Some d'" "h' = store h1 d' (Dict_obj tgt)"
    using assms al f by (simp_all add: deepcopy_def Let_def)
  have "writes_above ?n h1 h'" using res d' by (simp add: store_above)
  then have w: "writes_above ?n h h'" using w0 i(2) writes_above_trans by blast
  have "owned ?n h' d'"
    using res d' i by (simp add: owned_def the_dict_store_dict next_addr_store)
  then show ?thesis using res w by (simp add: kept_owned_def)
qed

lemma frame_writes_above: "frame h h' \<longleftrightarrow> writes_above (next_addr h) h h'"
  by (simp add: frame_def writes_above_def)

lemma frame_refl: "frame h h"
  by (simp add: frame_def)

lemma frame_trans: "frame h h1 \<Longrightarrow> frame h1 h2 \<Longrightarrow> frame h h2"
  by (simp add: frame_def)

lemma update_state_after_plan_bw_h_frame:
  "frame h (snd (update_state_after_plan_bw_h h state0 tokens))"
proof (cases state0)
  case None
  have "snd (simulate_h h None tokens) = h" by (rule simulate_h_none)
  then show ?thesis
    using None by (cases "simulate_h h None tokens")
      (auto simp: update_state_after_plan_bw_h_def deepcopy_def frame_refl split: option.splits)
next
  case (Some d)
  obtain v h1 where dc: "deepcopy h (Some d) = (v, h1)" by (cases "deepcopy h (Some d)")
  obtain d' where v: "v = Some d'" and k1: "kept_owned (next_addr h) d' h h1"
    using deepcopy_owned[OF dc] by blast
  have "kept_owned (next_addr h) d' h1 (snd (simulate_h h1 (Some d') tokens))"
    using k1 by (intro simulate_h_owned) (simp add: kept_owned_def)
  then have "kept_owned (next_addr h) d' h (snd (simulate_h h1 (Some d') tokens))"
    using k1 kept_owned_trans by blast
  then have "frame h (snd (simulate_h h1 (Some d') tokens))"
    by (simp add: frame_writes_above kept_owned_def)
  then show ?thesis
    using Some dc v by (cases "simulate_h h1 (Some d') tokens")
      (auto simp: update_state_after_plan_bw_h_def split: option.splits)
qed

lemma update_state_after_plan_h_frame:
  "frame h (snd (update_state_after_plan_h h state0 tokens))"
  by (auto simp: update_state_after_plan_h_def dict_copy_def alloc_def frame_def split: option.splits)

lemma plan_loop_h_frame:
  assumes "\<And>h s t. frame h (snd (upd h s t))"
  shows "frame h (fst (snd (plan_loop_h upd caps domain_file subgoals complete_plan current_state h w)))"
proof (induction subgoals arbitrary: complete_plan current_state h w)
  case Nil
  then show ?case by (simp add: frame_refl)
next
  case (Cons sg subgoals)
  obtain r w1 where s: "solve_subgoal_with_retry caps domain_file sg (snapshot h current_state) 3 w = (r, w1)"
    by (cases "solve_subgoal_with_retry caps domain_file sg (snapshot h current_state) 3 w")
  show ?case
  proof (cases r)
    case (Inl e)
    then show ?thesis using s by (simp add: frame_refl)
  next
    case (Inr res)
    obtain success subplan where res: "res = (success, subplan)" by (cases res)
    show ?thesis
    proof (cases success)
      case False
      then show ?thesis using s Inr res by (simp add: frame_refl)
    next
      case True
      obtain u h1 where u: "upd h current_state subplan = (u, h1)"
        by (cases "upd h current_state subplan")
      have f1: "frame h h1" using assms[of h current_state subplan] u by simp
      show ?thesis
      proof (cases u)
        case (Inl e)
        then show ?thesis using s Inr res True u f1 by simp
      next
        case (Inr new_state)
        have "frame h1 (fst (snd (plan_loop_h upd caps domain_file subgoals (complete_plan @ subplan) new_state h1 w1)))"
          by (rule Cons.IH)
        then have "frame h (fst (snd (plan_loop_h upd caps domain_file subgoals (complete_plan @ subplan) new_state h1 w1)))"
          using f1 frame_trans by blast
        then show ?thesis using s \<open>r = Inr res\<close> res True u Inr by simp
      qed
    qed
  qed
qed

lemma plan_with_h_frame:
  assumes "\<And>h s t. frame h (snd (upd h s t))"
  shows "frame h (fst (snd (plan_with_h upd caps natural_goal domain_file initial_state h w)))"
proof -
  obtain r w1 where hl: "high_level_planning caps natural_goal domain_file (snapshot_dict h initial_state) w = (r, w1)"
    by (cases "high_level_planning caps natural_goal domain_file (snapshot_dict h initial_state) w")
  show ?thesis
  proof (cases r)
    case (Inl e)
    then show ?thesis using hl by (simp add: plan_with_h_def frame_refl)
  next
    case (Inr subgoals)
    obtain c h1 where dc: "dict_copy h initial_state = (c, h1)" by (cases "dict_copy h initial_state")
    have f1: "frame h h1" using dc by (auto simp: dict_copy_def alloc_def frame_def)
    let ?l = "plan_loop_h upd caps domain_file subgoals [] (Some c) h1 w1"
    have "frame h1 (fst (snd ?l))" using assms by (rule plan_loop_h_frame)
    then have f: "frame h (fst (snd ?l))" using f1 frame_trans by blast
    obtain x h2 w2 where l: "?l = (x, h2, w2)" by (cases ?l)
    show ?thesis
      using hl Inr dc l f by (auto simp: plan_with_h_def split: sum.splits loop_exit.splits)
  qed
qed

lemma frame_snapshot:
  assumes "frame h h'" and "allocated h d"
  shows "snapshot_dict h' d = snapshot_dict h d"
proof -
  have c: "\<And>a. a < next_addr h \<Longrightarrow> cells h' a = cells h a" using assms(1) by (simp add: frame_def)
  have d: "the_dict h' d = the_dict h d" using c[of d] assms(2) by (simp add: the_dict_def allocated_def)
  have l: "the_list h' a = the_list h a" if "ref_of (the_dict h d) k = Some a" for k a
    using c[of a] assms(2) that by (simp add: the_list_def allocated_def)
  have b: "map_option (\<lambda>a. blocks_of (the_list h' a)) (ref_of (the_dict h d) k)
      = map_option (\<lambda>a. blocks_of (the_list h a)) (ref_of (the_dict h d) k)" for k
    using l[of k] by (cases "ref_of (the_dict h d) k") simp_all
  have p: "map_option (\<lambda>a. pairs_of (the_list h' a)) (ref_of (the_dict h d) k)
      = map_option (\<lambda>a. pairs_of (the_list h a)) (ref_of (the_dict h d) k)" for k
    using l[of k] by (cases "ref_of (the_dict h d) k") simp_all
  from b[of Ontable] b[of Clear] b[of Holding] p[of On]
  show ?thesis by (simp add: snapshot_dict_def d Let_def)
qed

lemma tower_heap_allocated: "allocated tower_heap 0"
proof -
  have d: "the_dict tower_heap 0 = \<lparr>d_ontable = Some 1, d_clear = Some 2, d_holding = Some 3,
      d_handempty = Some True, d_on = Some 4\<rparr>"
    by (simp add: the_dict_def tower_heap_def)
  have "a < 5" if "ref_of (the_dict tower_heap 0) k = Some a" for k a
    using that unfolding d by (cases k) simp_all
  then show ?thesis by (simp add: allocated_def tower_heap_def)
qed

lemma tower_heap_snapshot: "snapshot_dict tower_heap 0 = tower_initial"
  by (simp add: snapshot_dict_def the_dict_def the_list_def tower_heap_def tower_initial_def
      blocks_of_def pairs_of_def)

section \<open>Claims about the state-advance function\<close>

text \<open>
  C1. The claim: for every state and token list the state-advance function returns the
  freshly derived state that reflects all tokens, never \<^verbatim>\<open>None\<close>. On the tower example's
  initial state and the plan \<^verbatim>\<open>["pickup b"]\<close> the blocks-world function returns \<^verbatim>\<open>None\<close>
  (its body has no \<^verbatim>\<open>return\<close>), and the function of \<^verbatim>\<open>hybrid_coordinator.py\<close> returns the
  state it was given, with block b still on the table.
\<close>

theorem update_state_after_plan_returns_none:
  "update_state_after_plan_bw (Some tower_initial) [''pickup b''] = Inr None
   \<and> update_state_after_plan (Some tower_initial) [''pickup b''] = Inr (Some tower_initial)
   \<and> simulate (Some tower_initial) [''pickup b''] =
       Inr (Some \<lparr>ontable = Some [''a'', ''c'', ''d'', ''e''], clear = Some [''a'', ''c'', ''d'', ''e''],
                  holding = Some [''b''], handempty = Some False, on = Some []\<rparr>)"
  by code_simp

text \<open>The blocks-world function returns \<^verbatim>\<open>None\<close> or raises, whatever it is given.\<close>

lemma update_state_after_plan_bw_never_state:
  "update_state_after_plan_bw state0 tokens \<noteq> Inr (Some s)"
  by (simp add: update_state_after_plan_bw_def split: sum.splits)

text \<open>
  C5. The claim: the simulator skips every malformed or unrecognised token without
  raising. The token \<^verbatim>\<open>"stack a"\<close> lacks its second operand; it passes the test
  \<^verbatim>\<open>len(parts) < 2\<close> and the read of \<^verbatim>\<open>parts[2]\<close> raises \<^verbatim>\<open>IndexError\<close>, alone and also
  between two valid actions, written as one word \<^verbatim>\<open>"stack(a)"\<close>.
\<close>

theorem stack_without_operand_raises:
  "update_state_after_plan_bw (Some tower_initial) [''stack a''] = Inl IndexError
   \<and> simulate (Some tower_initial) [''pickup a'', ''stack(a)'', ''putdown a''] = Inl IndexError
   \<and> simulate (Some tower_initial) [''pickup a'', ''putdown a''] =
       Inr (Some \<lparr>ontable = Some [''b'', ''c'', ''d'', ''e'', ''a''], clear = Some [''b'', ''c'', ''d'', ''e'', ''a''],
                  holding = Some [], handempty = Some True, on = Some []\<rparr>)"
  by code_simp

text \<open>
  C7. The claim: for a clear block x on the table of a state with an empty hand,
  \<^verbatim>\<open>apply(apply(state, ["pickup x"]), ["putdown x"])\<close> restores on_table, clear, holding
  and hand_empty. On the tower example's initial state with x = b, the first call of
  the blocks-world \<^verbatim>\<open>_update_state_after_plan\<close> returns \<^verbatim>\<open>None\<close> (its body has no
  \<^verbatim>\<open>return\<close>), and the second call, given \<^verbatim>\<open>None\<close>, raises \<^verbatim>\<open>TypeError\<close> in
  \<^verbatim>\<open>_apply_putdown\<close>: no state comes back.
\<close>

theorem round_trip_through_update_raises:
  "update_state_after_plan_bw (Some tower_initial) [''pickup b''] = Inr None
   \<and> update_state_after_plan_bw None [''putdown b''] = Inl TypeError
   \<and> (case update_state_after_plan_bw (Some tower_initial) [''pickup b''] of
         Inl e \<Rightarrow> Inl e
       | Inr s \<Rightarrow> update_state_after_plan_bw s [''putdown b'']) = Inl TypeError"
  by code_simp

text \<open>
  The effects themselves do undo each other. On the state that the loop works on
  (the local \<^verbatim>\<open>new_state\<close>, which the function does not return): for a block x that is
  clear and on the table of a state whose hand is empty (nothing held and the flag
  set), the token \<^verbatim>\<open>pickup x\<close> followed by the token \<^verbatim>\<open>putdown x\<close> gives a state with the
  same blocks on the table and the same clear blocks (x among both again, each block
  as often as before), nothing held, the flag set, and the same pairs.
\<close>

lemma pickup_putdown_round_trip:
  assumes "clean x"
    and "x \<in> set (get_list (ontable st))"
    and "x \<in> set (get_list (clear st))"
    and "get_list (holding st) = []"
    and "handempty st = Some True"
  shows "simulate (Some st) [''pickup '' @ x] = Inr (Some (apply_pickup st x))
    \<and> simulate (Some (apply_pickup st x)) [''putdown '' @ x]
        = Inr (Some (apply_putdown (apply_pickup st x) x))
    \<and> mset (get_list (ontable (apply_putdown (apply_pickup st x) x))) = mset (get_list (ontable st))
    \<and> mset (get_list (clear (apply_putdown (apply_pickup st x) x))) = mset (get_list (clear st))
    \<and> x \<in> set (get_list (ontable (apply_putdown (apply_pickup st x) x)))
    \<and> x \<in> set (get_list (clear (apply_putdown (apply_pickup st x) x)))
    \<and> get_list (holding (apply_putdown (apply_pickup st x) x)) = get_list (holding st)
    \<and> handempty (apply_putdown (apply_pickup st x) x) = handempty st
    \<and> on (apply_putdown (apply_pickup st x) x) = on st"
proof -
  let ?s2 = "apply_putdown (apply_pickup st x) x"
  obtain ot where ot: "ontable st = Some ot" "x \<in> set ot"
    using assms(2) by (cases "ontable st") (auto simp: get_list_def)
  obtain cl where cl: "clear st = Some cl" "x \<in> set cl"
    using assms(3) by (cases "clear st") (auto simp: get_list_def)
  have 1: "simulate (Some st) [''pickup '' @ x] = Inr (Some (apply_pickup st x))"
    using apply_action_pickup[OF assms(1), of st] by simp
  have 2: "simulate (Some (apply_pickup st x)) [''putdown '' @ x] = Inr (Some ?s2)"
    using apply_action_putdown[OF assms(1), of "apply_pickup st x"] by simp
  have 3: "ontable ?s2 = Some (remove1 x ot @ [x])"
    using ot cl assms(5) by (simp add: apply_pickup_def apply_putdown_def)
  have 4: "clear ?s2 = Some (remove1 x cl @ [x])"
    using ot cl assms(5) by (simp add: apply_pickup_def apply_putdown_def)
  have 5: "holding ?s2 = Some []"
    using ot cl assms(5) by (simp add: apply_pickup_def apply_putdown_def)
  have 6: "handempty ?s2 = Some True"
    using ot cl assms(5) by (simp add: apply_pickup_def apply_putdown_def)
  have 7: "on ?s2 = on st"
    using ot cl assms(5) by (simp add: apply_pickup_def apply_putdown_def)
  show ?thesis
    using 1 2 3 4 5 6 7 ot cl assms(4,5) by (simp add: get_list_def)
qed

lemma pickup_putdown_round_trip_example:
  "clean ''b'' \<and> ''b'' \<in> set (get_list (ontable tower_initial))
   \<and> simulate (Some tower_initial) [''pickup b''] = Inr (Some (apply_pickup tower_initial ''b''))
   \<and> get_list (ontable (apply_putdown (apply_pickup tower_initial ''b'') ''b'')) = [''a'', ''c'', ''d'', ''e'', ''b'']
   \<and> mset (get_list (ontable (apply_putdown (apply_pickup tower_initial ''b'') ''b'')))
       = mset (get_list (ontable tower_initial))
   \<and> handempty (apply_putdown (apply_pickup tower_initial ''b'') ''b'') = Some True"
proof -
  have c: "clean ''b''" by (simp add: clean_def isspace_def)
  have o: "''b'' \<in> set (get_list (ontable tower_initial))" by (simp add: tower_initial_def get_list_def)
  have l: "''b'' \<in> set (get_list (clear tower_initial))" by (simp add: tower_initial_def get_list_def)
  have h: "get_list (holding tower_initial) = []" by (simp add: tower_initial_def get_list_def)
  have e: "handempty tower_initial = Some True" by (simp add: tower_initial_def)
  have v: "get_list (ontable (apply_putdown (apply_pickup tower_initial ''b'') ''b'')) = [''a'', ''c'', ''d'', ''e'', ''b'']"
    by (simp add: tower_initial_def get_list_def apply_pickup_def apply_putdown_def)
  show ?thesis
    using pickup_putdown_round_trip[OF c o l h e] c o v e by simp
qed

section \<open>Claims about the validator\<close>




text \<open>
  C10. A block that is the bottom of a pair and is neither on the table, nor held, nor
  the top of a pair makes the validator return \<^verbatim>\<open>False\<close>: the first loop runs over the
  bottoms as well, and such a block is in zero places.
\<close>

theorem validate_rejects_unplaced_bottom:
  assumes "(t, b) \<in> set (get_list (on st))"
    and "b \<notin> set (get_list (ontable st))"
    and "b \<notin> set (get_list (holding st))"
    and "b \<notin> fst ` set (get_list (on st))"
  shows "fst (validate_blocks_world_state st) = False"
proof -
  have bottom: "b \<in> snd ` set (get_list (on st))" using assms(1) by force
  have zero: "place_count st b = 0" using assms(2-4) by (simp add: place_count_def)
  have "\<not> fst (validate_blocks_world_state st)"
  proof
    assume "fst (validate_blocks_world_state st)"
    then have "\<forall>block \<in> set (get_list (ontable st)) \<union> set (get_list (holding st))
          \<union> fst ` set (get_list (on st)) \<union> snd ` set (get_list (on st)). place_count st block = 1"
      using validate_ok_iff[of st] by blast
    then have "place_count st b = 1" using bottom by blast
    then show False using zero by simp
  qed
  then show ?thesis by simp
qed

theorem validate_rejects_unplaced_bottom_witness:
  "(''a'', ''b'') \<in> set (get_list (on floating_bottom))
   \<and> ''b'' \<notin> set (get_list (ontable floating_bottom))
   \<and> fst (validate_blocks_world_state floating_bottom) = False"
proof -
  have 1: "(''a'', ''b'') \<in> set (get_list (on floating_bottom))" by (simp add: floating_bottom_def get_list_def)
  have 2: "''b'' \<notin> set (get_list (ontable floating_bottom))" by (simp add: floating_bottom_def get_list_def)
  have 3: "''b'' \<notin> set (get_list (holding floating_bottom))" by (simp add: floating_bottom_def get_list_def)
  have 4: "''b'' \<notin> fst ` set (get_list (on floating_bottom))" by (simp add: floating_bottom_def get_list_def)
  show ?thesis using validate_rejects_unplaced_bottom[OF 1 2 3 4] 1 2 by simp
qed

section \<open>Claims about the states that the simulator reaches\<close>

text \<open>
  C4. The claim: in every state reached from any initial state by any token sequence,
  each referenced block is in exactly one of on_table, holding, top of a pair. The
  initial state of the tower example satisfies this; the token \<^verbatim>\<open>stack a b\<close> applied to
  it (block a is on the table, not held) leaves block a both on the table and on top
  of b. The simulator tests no precondition.
\<close>

theorem stack_from_table_breaks_one_place:
  "one_place tower_initial
   \<and> simulate (Some tower_initial) [''stack a b''] =
       Inr (Some \<lparr>ontable = Some [''a'', ''b'', ''c'', ''d'', ''e''],
                  clear = Some [''a'', ''c'', ''d'', ''e'', ''a''],
                  holding = Some [], handempty = Some True, on = Some [(''a'', ''b'')]\<rparr>)
   \<and> \<not> one_place \<lparr>ontable = Some [''a'', ''b'', ''c'', ''d'', ''e''],
                  clear = Some [''a'', ''c'', ''d'', ''e'', ''a''],
                  holding = Some [], handempty = Some True, on = Some [(''a'', ''b'')]\<rparr>"
  by code_simp

text \<open>
  C4 as amended. From a state (each of whose keys holds a list of its own) that is well
  formed and in which each referenced block is in exactly one place, a plan whose tokens are each legal where they are applied
  (skipped by the loop, or an action with its operands whose documented precondition
  holds) raises nothing and leads to a state that is again well formed and in which
  each referenced block is in exactly one place.
\<close>

theorem legal_plan_keeps_one_place:
  assumes "consistent st" and "legal_plan st tokens"
  shows "\<exists>st'. simulate (Some st) tokens = Inr (Some st') \<and> one_place st' \<and> well_formed st'"
  using legal_plan_consistent[OF assms] by (auto simp: consistent_def)

theorem legal_plan_keeps_one_place_witness:
  "consistent tower_initial \<and> legal_plan tower_initial tower_plan
   \<and> (\<exists>st'. simulate (Some tower_initial) tower_plan = Inr (Some st') \<and> one_place st' \<and> well_formed st')"
  using legal_plan_keeps_one_place[OF tower_initial_consistent tower_plan_legal]
    tower_initial_consistent tower_plan_legal by simp

text \<open>The tower scenario: the state that the plan builds, which the validator accepts.\<close>

lemma tower_scenario:
  "simulate (Some tower_initial) tower_plan =
     Inr (Some \<lparr>ontable = Some [''a''], clear = Some [''e''], holding = Some [], handempty = Some True,
                on = Some [(''b'', ''a''), (''c'', ''b''), (''d'', ''c''), (''e'', ''d'')]\<rparr>)
   \<and> validate_blocks_world_state
        \<lparr>ontable = Some [''a''], clear = Some [''e''], holding = Some [], handempty = Some True,
         on = Some [(''b'', ''a''), (''c'', ''b''), (''d'', ''c''), (''e'', ''d'')]\<rparr> = (True, [])"
  by code_simp

section \<open>Claims about the coordinator\<close>

text \<open>
  C2. In a run of \<^verbatim>\<open>plan\<close> (of either coordinator) whose subgoals are \<open>pre\<close>, then
  \<open>sg\<close>, then \<open>post\<close>, where the loop gets through \<open>pre\<close> with every subgoal solved
  and the retries of \<open>sg\<close> end in failure, \<^verbatim>\<open>plan\<close> returns \<^verbatim>\<open>(False, [])\<close>: none of the
  actions of \<open>pre\<close> is in the result. The world it leaves is the one after the last
  attempt on \<open>sg\<close> with the error logged: no capability is called for \<open>post\<close>.
\<close>

theorem plan_failure_is_atomic:
  assumes "high_level_planning caps natural_goal domain_file initial_state w = (Inr (pre @ sg # post), w0)"
  shows "(plan_loop update_state_after_plan caps domain_file pre [] (Some initial_state) w0
            = (Inr (Completed complete_plan current_state), w1)
          \<and> solve_subgoal_with_retry caps domain_file sg current_state 3 w1 = (Inr (False, subplan), w2)
          \<longrightarrow> plan caps natural_goal domain_file initial_state w
            = (Inr (False, []), logger_error (''Failed to solve subgoal '' @ str_int (subgoal_id sg)) w2))
       \<and> (plan_loop update_state_after_plan_bw caps domain_file pre [] (Some initial_state) w0
            = (Inr (Completed complete_plan current_state), w1)
          \<and> solve_subgoal_with_retry caps domain_file sg current_state 3 w1 = (Inr (False, subplan), w2)
          \<longrightarrow> plan_bw caps natural_goal domain_file initial_state w
            = (Inr (False, []), logger_error (''Failed to solve subgoal '' @ str_int (subgoal_id sg)) w2))"
  using plan_with_failure[OF assms] by (simp add: plan_def plan_bw_def)

theorem plan_failure_is_atomic_witness:
  "fst (high_level_planning example_caps ''build a tower'' ''blocks_world.pddl'' tower_initial start)
      = Inr [subgoal_1, subgoal_2, subgoal_3]
   \<and> fst (plan_loop update_state_after_plan_bw example_caps ''blocks_world.pddl'' [subgoal_1] []
        (Some tower_initial)
        (snd (high_level_planning example_caps ''build a tower'' ''blocks_world.pddl'' tower_initial start)))
      = Inr (Completed [''pickup b''] None)
   \<and> fst (plan_bw example_caps ''build a tower'' ''blocks_world.pddl'' tower_initial start) = Inr (False, [])
   \<and> fst (plan example_caps ''build a tower'' ''blocks_world.pddl'' tower_initial start) = Inr (False, [])
   \<and> solve_calls (snd (plan_bw example_caps ''build a tower'' ''blocks_world.pddl'' tower_initial start)) = 4"
proof -
  let ?hl = "high_level_planning example_caps ''build a tower'' ''blocks_world.pddl'' tower_initial start"
  let ?w0 = "snd ?hl"
  let ?l = "plan_loop update_state_after_plan example_caps ''blocks_world.pddl'' [subgoal_1] [] (Some tower_initial) ?w0"
  let ?lb = "plan_loop update_state_after_plan_bw example_caps ''blocks_world.pddl'' [subgoal_1] [] (Some tower_initial) ?w0"
  let ?r = "solve_subgoal_with_retry example_caps ''blocks_world.pddl'' subgoal_2 (Some tower_initial) 3 (snd ?l)"
  let ?rb = "solve_subgoal_with_retry example_caps ''blocks_world.pddl'' subgoal_2 None 3 (snd ?lb)"
  have f0: "fst ?hl = Inr [subgoal_1, subgoal_2, subgoal_3]" by code_simp
  then have h0: "?hl = (Inr ([subgoal_1] @ subgoal_2 # [subgoal_3]), ?w0)"
    by (simp add: prod_eq_iff)
  have "fst ?l = Inr (Completed [''pickup b''] (Some tower_initial))" by code_simp
  then have h1: "?l = (Inr (Completed [''pickup b''] (Some tower_initial)), snd ?l)"
    by (simp add: prod_eq_iff)
  have f1b: "fst ?lb = Inr (Completed [''pickup b''] None)" by code_simp
  then have h1b: "?lb = (Inr (Completed [''pickup b''] None), snd ?lb)"
    by (simp add: prod_eq_iff)
  have "fst ?r = Inr (False, [])" by code_simp
  then have h2: "?r = (Inr (False, []), snd ?r)"
    by (simp add: prod_eq_iff)
  have "fst ?rb = Inr (False, [])" by code_simp
  then have h2b: "?rb = (Inr (False, []), snd ?rb)"
    by (simp add: prod_eq_iff)
  have p: "fst (plan example_caps ''build a tower'' ''blocks_world.pddl'' tower_initial start) = Inr (False, [])"
    using plan_failure_is_atomic[OF h0, of "[''pickup b'']" "Some tower_initial" "snd ?l" "[]" "snd ?r"] h1 h2
    by simp
  have pb: "plan_bw example_caps ''build a tower'' ''blocks_world.pddl'' tower_initial start
      = (Inr (False, []), logger_error (''Failed to solve subgoal '' @ str_int (subgoal_id subgoal_2)) (snd ?rb))"
    using plan_failure_is_atomic[OF h0, of "[''pickup b'']" "None" "snd ?lb" "[]" "snd ?rb"] h1b h2b
    by simp
  have c: "solve_calls (logger_error (''Failed to solve subgoal '' @ str_int (subgoal_id subgoal_2)) (snd ?rb)) = 4"
    by code_simp
  show ?thesis using f0 f1b p pb c by simp
qed

text \<open>
  C3. With a solve capability that reports failure on every call (and an adaptation
  capability that returns), \<^verbatim>\<open>_solve_subgoal_with_retry\<close> with \<^verbatim>\<open>max_retries = 3\<close> makes
  exactly these calls, in this order: solve, adapt (after attempt 1), solve on the
  adapted subgoal, adapt (after attempt 2), solve on the subgoal adapted again; it then
  returns \<^verbatim>\<open>(False, [])\<close>. The adaptation is called twice, each time between two
  attempts, and not after the third attempt.
\<close>

theorem retry_exhaustion:
  assumes "always_fails caps" and "adapt_returns caps"
  shows "(let x1 = snd (planner_solve_subgoal caps domain_file sg current_state (ext w));
              a1 = llm_adapt_plan caps sg ''Planning failed on attempt 1'' x1;
              sg1 = projr (fst a1);
              x3 = snd (planner_solve_subgoal caps domain_file sg1 current_state (snd a1));
              a2 = llm_adapt_plan caps sg1 ''Planning failed on attempt 2'' x3;
              sg2 = projr (fst a2);
              x5 = snd (planner_solve_subgoal caps domain_file sg2 current_state (snd a2))
          in solve_subgoal_with_retry caps domain_file sg current_state 3 w =
               (Inr (False, []),
                \<lparr>events = events w @
                   [Solve_call domain_file sg current_state,
                    Adapt_call sg ''Planning failed on attempt 1'',
                    Solve_call domain_file sg1 current_state,
                    Adapt_call sg1 ''Planning failed on attempt 2'',
                    Solve_call domain_file sg2 current_state],
                 ext = x5\<rparr>))
    \<and> adapt_calls (snd (solve_subgoal_with_retry caps domain_file sg current_state 3 w)) = adapt_calls w + 2
    \<and> solve_calls (snd (solve_subgoal_with_retry caps domain_file sg current_state 3 w)) = solve_calls w + 3"
proof -
  let ?e1 = "''Planning failed on attempt 1''"
  let ?e2 = "''Planning failed on attempt 2''"
  obtain p1 x1 where s1: "planner_solve_subgoal caps domain_file sg current_state (ext w) = (Inr (False, p1), x1)"
    using assms(1) unfolding always_fails_def by blast
  obtain sg1 x2 where a1: "llm_adapt_plan caps sg ?e1 x1 = (Inr sg1, x2)"
    using assms(2) unfolding adapt_returns_def by blast
  obtain p2 x3 where s2: "planner_solve_subgoal caps domain_file sg1 current_state x2 = (Inr (False, p2), x3)"
    using assms(1) unfolding always_fails_def by blast
  obtain sg2 x4 where a2: "llm_adapt_plan caps sg1 ?e2 x3 = (Inr sg2, x4)"
    using assms(2) unfolding adapt_returns_def by blast
  obtain p3 x5 where s3: "planner_solve_subgoal caps domain_file sg2 current_state x4 = (Inr (False, p3), x5)"
    using assms(1) unfolding always_fails_def by blast
  let ?w' = "\<lparr>events = events w @
          [Solve_call domain_file sg current_state, Adapt_call sg ?e1,
           Solve_call domain_file sg1 current_state, Adapt_call sg1 ?e2,
           Solve_call domain_file sg2 current_state], ext = x5\<rparr>"
  have r: "solve_subgoal_with_retry caps domain_file sg current_state 3 w = (Inr (False, []), ?w')"
    using s1 a1 s2 a2 s3
    by (simp add: solve_subgoal_with_retry_def py_range_3 call_def str_int_1 str_int_2 Let_def)
  have c: "adapt_calls ?w' = adapt_calls w + 2" "solve_calls ?w' = solve_calls w + 3"
    by (simp_all add: adapt_calls_def solve_calls_def)
  show ?thesis
    unfolding Let_def r s1 a1 s2 a2 s3 snd_conv fst_conv sum.sel using c by simp
qed

theorem retry_exhaustion_witness:
  "always_fails failing_caps \<and> adapt_returns failing_caps
   \<and> solve_subgoal_with_retry failing_caps ''blocks_world.pddl'' subgoal_1 (Some tower_initial) 3 start
       = (Inr (False, []),
          \<lparr>events = [Solve_call ''blocks_world.pddl'' subgoal_1 (Some tower_initial),
                     Adapt_call subgoal_1 ''Planning failed on attempt 1'',
                     Solve_call ''blocks_world.pddl'' subgoal_1 (Some tower_initial),
                     Adapt_call subgoal_1 ''Planning failed on attempt 2'',
                     Solve_call ''blocks_world.pddl'' subgoal_1 (Some tower_initial)],
           ext = ()\<rparr>)
   \<and> adapt_calls (snd (solve_subgoal_with_retry failing_caps ''blocks_world.pddl'' subgoal_1 (Some tower_initial) 3 start)) = 2"
proof -
  note t = retry_exhaustion[OF failing_caps_always_fails failing_caps_adapt_returns,
        of "''blocks_world.pddl''" subgoal_1 "Some tower_initial" start]
  have a: "llm_adapt_plan failing_caps sg e x = (Inr sg, x)" for sg e x
    by (simp add: failing_caps_def example_caps_def)
  have r: "solve_subgoal_with_retry failing_caps ''blocks_world.pddl'' subgoal_1 (Some tower_initial) 3 start
       = (Inr (False, []),
          \<lparr>events = [Solve_call ''blocks_world.pddl'' subgoal_1 (Some tower_initial),
                     Adapt_call subgoal_1 ''Planning failed on attempt 1'',
                     Solve_call ''blocks_world.pddl'' subgoal_1 (Some tower_initial),
                     Adapt_call subgoal_1 ''Planning failed on attempt 2'',
                     Solve_call ''blocks_world.pddl'' subgoal_1 (Some tower_initial)],
           ext = ()\<rparr>)"
    using t unfolding Let_def a fst_conv snd_conv sum.sel by (simp add: start_def)
  have c: "adapt_calls start = 0" by (simp add: adapt_calls_def start_def)
  show ?thesis
    using failing_caps_always_fails failing_caps_adapt_returns r t c by simp
qed

section \<open>Claims about the decomposition capability\<close>

text \<open>
  C9. The claim: on a reply that cannot be parsed, \<^verbatim>\<open>decompose_goal\<close>, \<^verbatim>\<open>resolve_conflicts\<close>
  and \<^verbatim>\<open>adapt_plan\<close> recover by a fallback parse and never raise. Whenever \<^verbatim>\<open>json.loads\<close>
  rejects the reply, each of the three raises \<^verbatim>\<open>AttributeError\<close>: the fallback method
  they call is not defined.
\<close>

theorem malformed_reply_raises:
  assumes "json_loads content = None"
  shows "decompose_goal json_loads content = Inl (AttributeError ''_fallback_parse'')
       \<and> resolve_conflicts json_loads content = Inl (AttributeError ''_fallback_parse'')
       \<and> adapt_plan json_loads content = Inl (AttributeError ''_fallback_parse'')"
  using assms
  by (simp add: decompose_goal_def resolve_conflicts_def adapt_plan_def parse_reply_def
      fallback_parse_def getattr_llm_def llm_attributes_def)

theorem malformed_reply_raises_witness:
  "loads_empty_list ''Here are the subgoals: 1. pick up b'' = None
   \<and> decompose_goal loads_empty_list ''Here are the subgoals: 1. pick up b''
       = Inl (AttributeError ''_fallback_parse'')
   \<and> adapt_plan loads_empty_list ''Here are the subgoals: 1. pick up b''
       = Inl (AttributeError ''_fallback_parse'')"
proof -
  have n: "loads_empty_list ''Here are the subgoals: 1. pick up b'' = None"
    by (simp add: loads_empty_list_def)
  show ?thesis
    using malformed_reply_raises[of loads_empty_list "''Here are the subgoals: 1. pick up b''"] n
    by simp
qed

section \<open>Claims about what a call leaves untouched\<close>

text \<open>
  C8. Neither \<^verbatim>\<open>_update_state_after_plan\<close> nor \<^verbatim>\<open>plan\<close>, of either coordinator, changes
  an object that exists when it is called: in the store after the call, every object
  of the store before the call is as it was. When the state passed in (the dict and
  the lists it names) exists before the call, its value after the call is its value
  before. What the call changes are objects it has created: the deep copy in the
  blocks-world function, and in \<^verbatim>\<open>hybrid_coordinator.py\<close> the new dict that the function
  returns. The capabilities that \<^verbatim>\<open>plan\<close> calls are handed the value of the state.
\<close>

theorem state_argument_is_not_mutated:
  "frame h (snd (update_state_after_plan_bw_h h state0 tokens))
   \<and> frame h (snd (update_state_after_plan_h h state0 tokens))
   \<and> frame h (fst (snd (plan_bw_h caps natural_goal domain_file d h w)))
   \<and> frame h (fst (snd (plan_h caps natural_goal domain_file d h w)))
   \<and> fst (update_state_after_plan_h h (Some d) tokens) = Inr (Some (next_addr h))
   \<and> (allocated h d \<longrightarrow>
        snapshot_dict (snd (update_state_after_plan_bw_h h (Some d) tokens)) d = snapshot_dict h d
      \<and> snapshot_dict (snd (update_state_after_plan_h h (Some d) tokens)) d = snapshot_dict h d
      \<and> snapshot_dict (fst (snd (plan_bw_h caps natural_goal domain_file d h w))) d = snapshot_dict h d
      \<and> snapshot_dict (fst (snd (plan_h caps natural_goal domain_file d h w))) d = snapshot_dict h d)"
proof -
  have 1: "frame h (snd (update_state_after_plan_bw_h h s t))" for h s t
    by (rule update_state_after_plan_bw_h_frame)
  have 2: "frame h (snd (update_state_after_plan_h h s t))" for h s t
    by (rule update_state_after_plan_h_frame)
  have 3: "frame h (fst (snd (plan_bw_h caps natural_goal domain_file d h w)))"
    unfolding plan_bw_h_def by (rule plan_with_h_frame) (rule 1)
  have 4: "frame h (fst (snd (plan_h caps natural_goal domain_file d h w)))"
    unfolding plan_h_def by (rule plan_with_h_frame) (rule 2)
  have 5: "fst (update_state_after_plan_h h (Some d) tokens) = Inr (Some (next_addr h))"
    by (simp add: update_state_after_plan_h_def dict_copy_def alloc_def)
  show ?thesis
    using 1[of h state0 tokens] 2[of h state0 tokens] 1[of h "Some d" tokens] 2[of h "Some d" tokens] 3 4 5
    by (simp add: frame_snapshot)
qed

theorem state_argument_is_not_mutated_witness:
  "allocated tower_heap 0
   \<and> snapshot_dict tower_heap 0 = tower_initial
   \<and> snapshot_dict (snd (update_state_after_plan_bw_h tower_heap (Some 0) tower_plan)) 0 = tower_initial
   \<and> snapshot_dict (fst (snd (plan_bw_h example_caps ''build a tower'' ''blocks_world.pddl'' 0 tower_heap start))) 0
       = tower_initial
   \<and> cells (snd (update_state_after_plan_bw_h tower_heap (Some 0) tower_plan)) 1
       = Some (List_obj [Block ''a'', Block ''b'', Block ''c'', Block ''d'', Block ''e''])"
proof -
  note t = state_argument_is_not_mutated[of tower_heap "Some 0" tower_plan example_caps
      "''build a tower''" "''blocks_world.pddl''" 0 start]
  have f: "frame tower_heap (snd (update_state_after_plan_bw_h tower_heap (Some 0) tower_plan))"
    using t by blast
  have "(1::nat) < next_addr tower_heap" by (simp add: tower_heap_def)
  then have "cells (snd (update_state_after_plan_bw_h tower_heap (Some 0) tower_plan)) 1 = cells tower_heap 1"
    using f by (simp add: frame_def)
  then have c: "cells (snd (update_state_after_plan_bw_h tower_heap (Some 0) tower_plan)) 1
       = Some (List_obj [Block ''a'', Block ''b'', Block ''c'', Block ''d'', Block ''e''])"
    by (simp add: tower_heap_def)
  show ?thesis
    using t tower_heap_allocated tower_heap_snapshot c by simp
qed

end
